theory Spec2Isabelle
  imports Complex_Main
begin

section \<open>Numbers and arrays\<close>

text \<open>
  The simulation core is TypeScript. A JavaScript \<^verbatim>\<open>number\<close> is modelled as a
  \<^typ>\<open>real\<close>: arithmetic is exact, and the non-finite values (NaN, the infinities) and
  rounding are outside the model, but for the time arithmetic of \<^verbatim>\<open>solveODE\<close>, which is
  modelled in double precision as well (\<open>solveODE_double\<close>). An array of numbers is a \<^typ>\<open>real list\<close>. A read
  \<^verbatim>\<open>xs[i]\<close> inside an arithmetic expression is written \<open>xs ! i\<close>; it stands for the
  source's read only for \<open>i < length xs\<close> (JavaScript yields \<^verbatim>\<open>undefined\<close>
  outside), so every theorem that depends on such a read carries the length hypothesis that
  keeps it in range. Where a read out of range decides a branch (a comparison with
  \<^verbatim>\<open>undefined\<close> is false) the bound check is written into the model.

  \<open>mapi\<close> is \<^verbatim>\<open>Array.prototype.map\<close> with the callback \<^verbatim>\<open>(value, index) => ...\<close>.
\<close>

definition mapi :: "('a \<Rightarrow> nat \<Rightarrow> 'b) \<Rightarrow> 'a list \<Rightarrow> 'b list" where
  "mapi g xs = map (\<lambda>(x, i). g x i) (zip xs [0..<length xs])"

section \<open>The vector field (ecologyModel.ts)\<close>

text \<open>The fields \<^verbatim>\<open>r\<close> and \<^verbatim>\<open>h\<close> of \<^verbatim>\<open>EcologyParams\<close> are named \<open>r_vec\<close> and \<open>h_vec\<close>.\<close>

record EcologyParams =
  Y_mut :: "real list list"
  Y_comp :: "real list list"
  r_vec :: "real list"
  h_vec :: "real list"

text \<open>\<^verbatim>\<open>matrix.map(row => row.reduce((sum, val, i) => sum + val * vec[i], 0))\<close>\<close>

definition matVecMult :: "real list list \<Rightarrow> real list \<Rightarrow> real list" where
  "matVecMult matrix vec =
     map (\<lambda>row. foldl (\<lambda>sum (val, i). sum + val * vec ! i) 0 (zip row [0..<length row])) matrix"

definition typeIIResponse :: "real list \<Rightarrow> real list \<Rightarrow> real list" where
  "typeIIResponse mutRaw h = mapi (\<lambda>val i. val / (1 + h ! i * val)) mutRaw"

definition ecoDynamicsTypeII :: "real \<Rightarrow> real list \<Rightarrow> EcologyParams \<Rightarrow> real list" where
  "ecoDynamicsTypeII t N params =
     (let mutRaw = matVecMult (Y_mut params) N;
          M = typeIIResponse mutRaw (h_vec params);
          compSum = matVecMult (Y_comp params) N
      in mapi (\<lambda>Ni i. if Ni \<le> 0 then 0
                       else Ni * (r_vec params ! i - Ni + compSum ! i + M ! i)) N)"

section \<open>The integrator (odeSolver.ts)\<close>

type_synonym 'p ODEFunction = "real \<Rightarrow> real list \<Rightarrow> 'p \<Rightarrow> real list"

text \<open>A record \<^verbatim>\<open>{ t, y }\<close> of a solution or of the history is a pair.\<close>

type_synonym sample = "real \<times> real list"

definition rk4Step :: "'p ODEFunction \<Rightarrow> real \<Rightarrow> real list \<Rightarrow> real \<Rightarrow> 'p \<Rightarrow> real list" where
  "rk4Step f t y dt params =
     (let k1 = f t y params;
          y2 = mapi (\<lambda>yi i. yi + (dt / 2) * k1 ! i) y;
          k2 = f (t + dt / 2) y2 params;
          y3 = mapi (\<lambda>yi i. yi + (dt / 2) * k2 ! i) y;
          k3 = f (t + dt / 2) y3 params;
          y4 = mapi (\<lambda>yi i. yi + dt * k3 ! i) y;
          k4 = f (t + dt) y4 params
      in mapi (\<lambda>yi i. yi + (dt / 6) * (k1 ! i + 2 * k2 ! i + 2 * k3 ! i + k4 ! i)) y)"

text \<open>
  The \<^verbatim>\<open>while (t < t1)\<close> loop of \<^verbatim>\<open>solveODE\<close>. It need not end (with \<open>dt \<le> 0\<close> the
  time never reaches \<open>t1\<close>), so the loop is a partial function: \<open>None\<close> is the run that
  never returns. \<open>solution\<close> is the array the loop pushes to. Here the arithmetic is exact;
  \<open>solveODE_loop_double\<close> below is the loop with the time in double precision.
\<close>

partial_function (option) solveODE_loop ::
  "'p ODEFunction \<Rightarrow> real \<Rightarrow> real list \<Rightarrow> real \<Rightarrow> real \<Rightarrow> 'p \<Rightarrow> sample list \<Rightarrow> sample list option"
where
  "solveODE_loop f t y t1 dt params solution =
     (if t < t1 then
        (let step = min dt (t1 - t);
             y' = rk4Step f t y step params;
             t' = t + step
         in solveODE_loop f t' y' t1 dt params (solution @ [(t', y')]))
      else Some solution)"

definition solveODE ::
  "'p ODEFunction \<Rightarrow> real list \<Rightarrow> real \<Rightarrow> real \<Rightarrow> real \<Rightarrow> 'p \<Rightarrow> sample list option" where
  "solveODE f y0 t0 t1 dt params = solveODE_loop f t0 y0 t1 dt params [(t0, y0)]"

text \<open>
  Double precision. A double is a real \<open>m \<cdot> 2^e\<close> with \<open>|m| < 2^53\<close>; \<open>fl x\<close> is the double
  nearest to \<open>x\<close>, ties to the even significand (the rounding of every IEEE 754 operation),
  for \<open>x\<close> in the range of the normal doubles: overflow and the subnormal numbers are not
  modelled.
\<close>

definition roundHalfEven :: "real \<Rightarrow> int" where
  "roundHalfEven q =
     (let n = \<lfloor>q\<rfloor>
      in if q - of_int n < 1 / 2 then n
         else if 1 / 2 < q - of_int n then n + 1
         else if even n then n else n + 1)"

definition fl :: "real \<Rightarrow> real" where
  "fl x =
     (if x = 0 then 0
      else (let e = \<lfloor>log 2 \<bar>x\<bar>\<rfloor> - 52
            in of_int (roundHalfEven (x / 2 powr of_int e)) * 2 powr of_int e))"

text \<open>
  \<^verbatim>\<open>solveODE\<close> with its arithmetic on the time in double precision: the subtraction
  \<^verbatim>\<open>t1 - t\<close> and the addition \<^verbatim>\<open>t += step\<close> round (\<^verbatim>\<open>Math.min\<close> and the comparison
  \<^verbatim>\<open>t < t1\<close> are exact). The state vector is still computed in exact arithmetic.
\<close>

partial_function (option) solveODE_loop_double ::
  "'p ODEFunction \<Rightarrow> real \<Rightarrow> real list \<Rightarrow> real \<Rightarrow> real \<Rightarrow> 'p \<Rightarrow> sample list \<Rightarrow> sample list option"
where
  "solveODE_loop_double f t y t1 dt params solution =
     (if t < t1 then
        (let step = min dt (fl (t1 - t));
             y' = rk4Step f t y step params;
             t' = fl (t + step)
         in solveODE_loop_double f t' y' t1 dt params (solution @ [(t', y')]))
      else Some solution)"

definition solveODE_double ::
  "'p ODEFunction \<Rightarrow> real list \<Rightarrow> real \<Rightarrow> real \<Rightarrow> real \<Rightarrow> 'p \<Rightarrow> sample list option" where
  "solveODE_double f y0 t0 t1 dt params = solveODE_loop_double f t0 y0 t1 dt params [(t0, y0)]"

text \<open>
  The classical Runge-Kutta update as the specification words it, on vectors:
  \<open>y + dt/6 \<cdot> (k1 + 2 k2 + 2 k3 + k4)\<close>. It is compared with \<open>rk4Step\<close> below.
\<close>

definition vadd :: "real list \<Rightarrow> real list \<Rightarrow> real list" where
  "vadd xs ys = map2 (+) xs ys"

definition smul :: "real \<Rightarrow> real list \<Rightarrow> real list" where
  "smul c xs = map ((*) c) xs"

definition rk4_classical :: "'p ODEFunction \<Rightarrow> real \<Rightarrow> real list \<Rightarrow> real \<Rightarrow> 'p \<Rightarrow> real list" where
  "rk4_classical f t y dt params =
     (let k1 = f t y params;
          k2 = f (t + dt / 2) (vadd y (smul (dt / 2) k1)) params;
          k3 = f (t + dt / 2) (vadd y (smul (dt / 2) k2)) params;
          k4 = f (t + dt) (vadd y (smul dt k3)) params
      in vadd y (smul (dt / 6) (vadd (vadd (vadd k1 (smul 2 k2)) (smul 2 k3)) k4)))"

section \<open>The interaction matrix builder (networkBuilder.ts)\<close>

text \<open>
  The fields \<^verbatim>\<open>B\<close>, \<^verbatim>\<open>S\<close> of \<^verbatim>\<open>BipartiteNetwork\<close> and \<^verbatim>\<open>m\<close>, \<^verbatim>\<open>d\<close>, \<^verbatim>\<open>c\<close> of
  \<^verbatim>\<open>NetworkParams\<close> carry a prefix here; \<^verbatim>\<open>null\<close> is \<open>None\<close>.
\<close>

record BipartiteNetwork =
  net_B :: "real list list option"
  net_S :: "real list list option"

record NetworkParams =
  par_m :: real
  par_d :: real
  par_c :: real

text \<open>
  What the builder can throw: its own \<^verbatim>\<open>Error\<close> when neither matrix is supplied, and the
  \<^verbatim>\<open>TypeError\<close> of reading \<^verbatim>\<open>.length\<close> (or a field) of \<^verbatim>\<open>undefined\<close>.
\<close>

datatype error = NoMatrixError | TypeError

definition padMatrix :: "real list list option \<Rightarrow> nat \<Rightarrow> nat \<Rightarrow> real list list option" where
  "padMatrix matrix targetRows targetCols =
     (case matrix of
        None \<Rightarrow> None
      | Some M \<Rightarrow>
          Some (map (\<lambda>i. map (\<lambda>j. if i < length M \<and> j < length (M ! 0) then M ! i ! j else 0)
                              [0..<targetCols])
                    [0..<targetRows]))"

text \<open>\<^verbatim>\<open>Y[i][j] += v\<close> and \<^verbatim>\<open>Y[i][j] = v\<close> on an array of rows.\<close>

definition addTo :: "real list list \<Rightarrow> nat \<Rightarrow> nat \<Rightarrow> real \<Rightarrow> real list list" where
  "addTo Y i j v = Y[i := (Y ! i)[j := Y ! i ! j + v]]"

definition setAt :: "real list list \<Rightarrow> nat \<Rightarrow> nat \<Rightarrow> real \<Rightarrow> real list list" where
  "setAt Y i j v = Y[i := (Y ! i)[j := v]]"

text \<open>
  The loop "identify active species" over one padded layer: it returns the flags of the
  plants and of the animals (\<^verbatim>\<open>plant_in_B\<close>, \<^verbatim>\<open>animal_in_B\<close>, and likewise for \<^verbatim>\<open>S\<close>).
  The flags stay false when the layer is \<^verbatim>\<open>null\<close>.
\<close>

definition activeFlags :: "real list list option \<Rightarrow> nat \<Rightarrow> nat \<Rightarrow> bool list \<times> bool list" where
  "activeFlags padded Np Na =
     (case padded of
        None \<Rightarrow> (replicate Np False, replicate Na False)
      | Some P \<Rightarrow>
          foldl (\<lambda>(plant_in, animal_in) (i, j).
                   if P ! i ! j > 0 then (plant_in[i := True], animal_in[j := True])
                   else (plant_in, animal_in))
                (replicate Np False, replicate Na False)
                (List.product [0..<Np] [0..<Na]))"

text \<open>\<^verbatim>\<open>Math.max(flags.filter(Boolean).length - 1, 1)\<close>\<close>

definition comp_denom :: "bool list \<Rightarrow> real" where
  "comp_denom flags = max (real (length (filter (\<lambda>b. b) flags)) - 1) 1"

text \<open>
  The competition loops, \<open>j\<close> the outer index: for the plants \<open>off = 0\<close> and \<open>n = Np\<close>,
  for the animals \<open>off = Np\<close> and \<open>n = Na\<close>.
\<close>

definition competition ::
  "real list list \<Rightarrow> nat \<Rightarrow> nat \<Rightarrow> bool list \<Rightarrow> bool list \<Rightarrow> real \<Rightarrow> real list list" where
  "competition Y off n in_B in_S c =
     foldl (\<lambda>Y (j, i).
              if i \<noteq> j then
                (let Y1 = (if in_B ! i \<and> in_B ! j
                           then addTo Y (off + i) (off + j) (c / comp_denom in_B) else Y)
                 in if in_S ! i \<and> in_S ! j
                    then addTo Y1 (off + i) (off + j) (c / comp_denom in_S) else Y1)
              else Y)
           Y (List.product [0..<n] [0..<n])"

text \<open>The mutualism block of one layer (pollination with \<open>m\<close>, dispersal with \<open>d\<close>).\<close>

definition mutualism ::
  "real list list \<Rightarrow> real list list option \<Rightarrow> real \<Rightarrow> nat \<Rightarrow> nat \<Rightarrow> real list list" where
  "mutualism Y padded strength Np Na =
     (case padded of
        None \<Rightarrow> Y
      | Some P \<Rightarrow>
          (let row_sum = map (\<lambda>row. foldl (\<lambda>sum val. sum + val) 0 row) P;
               col_sum = map (\<lambda>j. foldl (\<lambda>sum i. sum + P ! i ! j) 0 [0..<Np]) [0..<Na]
           in foldl (\<lambda>Y (i, j).
                if P ! i ! j > 0 then
                  (let denom_p = row_sum ! i;
                       Y1 = (if denom_p > 0
                             then addTo Y i (Np + j) (strength * P ! i ! j / sqrt denom_p) else Y);
                       denom_a = col_sum ! j
                   in if denom_a > 0
                      then addTo Y1 (Np + j) i (strength * P ! i ! j / sqrt denom_a) else Y1)
                else Y)
              Y (List.product [0..<Np] [0..<Na])))"

text \<open>The result \<^verbatim>\<open>{ Y_mut, Y_comp, nSpecies }\<close> is a triple.\<close>

definition buildInteractionMatrix ::
  "BipartiteNetwork \<Rightarrow> NetworkParams \<Rightarrow> error + (real list list \<times> real list list \<times> nat)" where
  "buildInteractionMatrix network params =
     (if net_B network = None \<and> net_S network = None then Inl NoMatrixError
      else if net_B network = Some [] \<or> net_S network = Some [] then Inl TypeError
      else
        (let Np = max (case net_B network of None \<Rightarrow> 0 | Some M \<Rightarrow> length M)
                      (case net_S network of None \<Rightarrow> 0 | Some M \<Rightarrow> length M);
             Na = max (case net_B network of None \<Rightarrow> 0 | Some M \<Rightarrow> length (M ! 0))
                      (case net_S network of None \<Rightarrow> 0 | Some M \<Rightarrow> length (M ! 0));
             Nt = Np + Na;
             Y0 = replicate Nt (replicate Nt 0);
             B_padded = padMatrix (net_B network) Np Na;
             S_padded = padMatrix (net_S network) Np Na;
             (plant_in_B, animal_in_B) = activeFlags B_padded Np Na;
             (plant_in_S, animal_in_S) = activeFlags S_padded Np Na;
             Y1 = competition Y0 0 Np plant_in_B plant_in_S (par_c params);
             Y2 = competition Y1 Np Na animal_in_B animal_in_S (par_c params);
             Y3 = mutualism Y2 B_padded (par_m params) Np Na;
             Y = mutualism Y3 S_padded (par_d params) Np Na
         in Inr (map (map (max 0)) Y, map (map (min 0)) Y, Nt)))"

text \<open>The synthetic ring network of ecologyModel.ts.\<close>

record ModelConfig =
  nSpecies :: nat
  mutualisticStrength :: real
  dispersalStrength :: real
  competitionStrength :: real
  halfSaturation :: real
  customNetwork :: "(real list list \<times> real list list) option"

definition generateInteractionMatrices :: "ModelConfig \<Rightarrow> real list list \<times> real list list" where
  "generateInteractionMatrices cfg =
     (let n = nSpecies cfg;
          Y = foldl (\<lambda>Y (i, j).
                if i \<noteq> j then
                  (if (i + 1) mod n = j \<or> (j + 1) mod n = i
                   then setAt Y i j (mutualisticStrength cfg)
                   else setAt Y i j (competitionStrength cfg))
                else Y)
              (replicate n (replicate n 0)) (List.product [0..<n] [0..<n])
      in (map (map (max 0)) Y, map (map (min 0)) Y))"

text \<open>A matrix as the CSV parser delivers it: every row as long as the first.\<close>

definition rectangular :: "real list list \<Rightarrow> bool" where
  "rectangular M = list_all (\<lambda>row. length row = length (M ! 0)) M"

section \<open>The simulation engine (simulationEngine.ts)\<close>

record HurricaneCategory =
  name :: string
  probability :: real
  damage :: real

record SimulationConfig =
  hurricaneRate :: real
  hurricaneCategories :: "HurricaneCategory list"
  extinctionThreshold :: real
  timeStep :: real



record HurricaneEvent =
  ev_time :: real
  ev_category :: string
  ev_damage :: real

record SimulationState =
  time :: real
  populations :: "real list"
  hurricanes :: "HurricaneEvent list"
  extinctSpecies :: "nat set"
  history :: "sample list"

record 'p SimulationEngine =
  odeFunction :: "'p ODEFunction"
  ecologyParams :: 'p
  config :: SimulationConfig
  state :: SimulationState
  initialPopulations :: "real list"
  extinctionThresholds :: "real list"

text \<open>
  The two calls of \<^verbatim>\<open>Math.random()\<close> are inputs of the model: \<open>u\<close> below is the value
  drawn, a number of \<open>[0, 1)\<close>.
\<close>

definition randomExponential :: "real \<Rightarrow> real \<Rightarrow> real" where
  "randomExponential lambda u = - ln (1 - u) / lambda"

fun drawLoop :: "HurricaneCategory list \<Rightarrow> real \<Rightarrow> real \<Rightarrow> (string \<times> real) option" where
  "drawLoop [] rand cumProb = None"
| "drawLoop (cat # cats) rand cumProb =
     (let cumProb' = cumProb + probability cat
      in if rand \<le> cumProb' then Some (name cat, damage cat) else drawLoop cats rand cumProb')"

text \<open>
  With no category at all the fallback reads \<^verbatim>\<open>categories[-1]\<close>, which is
  \<^verbatim>\<open>undefined\<close>, and \<^verbatim>\<open>last.name\<close> throws.
\<close>

definition drawHurricaneDamage :: "HurricaneCategory list \<Rightarrow> real \<Rightarrow> error + (string \<times> real)" where
  "drawHurricaneDamage categories rand =
     (case drawLoop categories rand 0 of
        Some r \<Rightarrow> Inr r
      | None \<Rightarrow>
          (case categories of
             [] \<Rightarrow> Inl TypeError
           | _ \<Rightarrow> Inr (name (last categories), damage (last categories))))"

definition new_SimulationEngine ::
  "'p ODEFunction \<Rightarrow> 'p \<Rightarrow> real list \<Rightarrow> SimulationConfig \<Rightarrow> 'p SimulationEngine" where
  "new_SimulationEngine f eparams initPops cfg =
     \<lparr>odeFunction = f, ecologyParams = eparams, config = cfg,
      state = \<lparr>time = 0, populations = initPops, hurricanes = [], extinctSpecies = {},
               history = [(0, initPops)]\<rparr>,
      initialPopulations = initPops,
      extinctionThresholds = map (\<lambda>pop. pop * extinctionThreshold cfg) initPops\<rparr>"

definition reset :: "'p SimulationEngine \<Rightarrow> real list option \<Rightarrow> 'p SimulationEngine" where
  "reset e newPops =
     (let e1 = (case newPops of
                  None \<Rightarrow> e
                | Some ps \<Rightarrow>
                    e\<lparr>initialPopulations := ps,
                      extinctionThresholds := map (\<lambda>pop. pop * extinctionThreshold (config e)) ps\<rparr>)
      in e1\<lparr>state := \<lparr>time = 0, populations = initialPopulations e1, hurricanes = [],
                      extinctSpecies = {}, history = [(0, initialPopulations e1)]\<rparr>\<rparr>)"

definition updateParams :: "'p SimulationEngine \<Rightarrow> 'p \<Rightarrow> 'p SimulationEngine" where
  "updateParams e eparams = e\<lparr>ecologyParams := eparams\<rparr>"



text \<open>
  The first block of \<^verbatim>\<open>step\<close>, "generate next hurricane time": the candidate is kept
  (\<open>Some\<close>) unless it lies beyond the end of the step; \<open>None\<close> is \<^verbatim>\<open>null\<close>.
\<close>

definition nextHurricane :: "'p SimulationEngine \<Rightarrow> real \<Rightarrow> real \<Rightarrow> real option" where
  "nextHurricane e duration u =
     (let startTime = time (state e); endTime = startTime + duration
      in if hurricaneRate (config e) > 0 then
           (let timeToNext = randomExponential (hurricaneRate (config e)) u;
                nextHurricaneTime = startTime + timeToNext
            in if nextHurricaneTime > endTime then None else Some nextHurricaneTime)
         else None)"

text \<open>
  The second block, "solve ODE from current time to actual end time": the state after it,
  or \<open>None\<close> when \<^verbatim>\<open>solveODE\<close> does not return.
\<close>

definition integrateTo :: "'p SimulationEngine \<Rightarrow> real \<Rightarrow> SimulationState option" where
  "integrateTo e actualEndTime =
     (let st = state e; startTime = time st
      in if actualEndTime > startTime then
           (case solveODE (odeFunction e) (populations st) startTime actualEndTime
                   (timeStep (config e)) (ecologyParams e) of
              None \<Rightarrow> None
            | Some solution \<Rightarrow>
                Some (st\<lparr>history := history st @ tl solution,
                         time := actualEndTime,
                         populations := snd (last solution)\<rparr>))
         else Some st)"

text \<open>
  The callback of \<^verbatim>\<open>populations.map\<close> in the third block, run from index \<open>i\<close> on: it
  returns the damaged populations and the extinct set it has added to. The threshold is read
  at \<open>i\<close>; beyond the thresholds the comparison with \<^verbatim>\<open>undefined\<close> is false.
\<close>

fun applyDamage :: "real \<Rightarrow> real list \<Rightarrow> real list \<Rightarrow> nat \<Rightarrow> nat set \<Rightarrow> real list \<times> nat set" where
  "applyDamage dmg thresholds [] i extinct = ([], extinct)"
| "applyDamage dmg thresholds (pop # pops) i extinct =
     (let newPop = pop * (1 - dmg)
      in if i < length thresholds \<and> newPop < thresholds ! i then
           (let (rest, extinct') = applyDamage dmg thresholds pops (Suc i) (insert i extinct)
            in (0 # rest, extinct'))
         else
           (let (rest, extinct') = applyDamage dmg thresholds pops (Suc i) extinct
            in (newPop # rest, extinct')))"

text \<open>
  The third block, "apply hurricane if it occurred", on the state the integration left.
  When the category list is empty the draw throws before anything is changed.
\<close>

definition applyHurricane ::
  "'p SimulationEngine \<Rightarrow> SimulationState \<Rightarrow> real \<Rightarrow> real \<Rightarrow> error + SimulationState" where
  "applyHurricane e st nextHurricaneTime u =
     (case drawHurricaneDamage (hurricaneCategories (config e)) u of
        Inl err \<Rightarrow> Inl err
      | Inr (category, dmg) \<Rightarrow>
          (let hs = hurricanes st @ [\<lparr>ev_time = nextHurricaneTime, ev_category = category, ev_damage = dmg\<rparr>];
               (pops, extinct) = applyDamage dmg (extinctionThresholds e) (populations st) 0
                                   (extinctSpecies st)
           in Inr (st\<lparr>hurricanes := hs, populations := pops, extinctSpecies := extinct,
                      history := history st @ [(nextHurricaneTime, pops)]\<rparr>)))"

text \<open>
  \<^verbatim>\<open>step(duration)\<close> with the two random draws \<open>u_wait\<close> and \<open>u_cat\<close>. The result is
  \<open>None\<close> when the call does not return; otherwise the engine after the call, with the
  value returned (\<open>Inr None\<close> is \<^verbatim>\<open>null\<close>, \<open>Inr (Some t)\<close> the hurricane time) or the
  error thrown.
\<close>

definition step ::
  "'p SimulationEngine \<Rightarrow> real \<Rightarrow> real \<Rightarrow> real \<Rightarrow> ((error + real option) \<times> 'p SimulationEngine) option" where
  "step e duration u_wait u_cat =
     (let startTime = time (state e);
          endTime = startTime + duration;
          nextHurricaneTime = nextHurricane e duration u_wait;
          actualEndTime = (case nextHurricaneTime of None \<Rightarrow> endTime | Some t \<Rightarrow> t)
      in case integrateTo e actualEndTime of
           None \<Rightarrow> None
         | Some st1 \<Rightarrow>
             (case nextHurricaneTime of
                None \<Rightarrow> Some (Inr None, e\<lparr>state := st1\<rparr>)
              | Some th \<Rightarrow>
                  (case applyHurricane e st1 th u_cat of
                     Inl err \<Rightarrow> Some (Inl err, e\<lparr>state := st1\<rparr>)
                   | Inr st2 \<Rightarrow> Some (Inr (Some th), e\<lparr>state := st2\<rparr>))))"

text \<open>
  A sequence of \<^verbatim>\<open>step\<close> calls, each with its duration and its two draws; a call that
  throws leaves the engine as the integration left it, and the caller goes on.
\<close>

fun steps :: "'p SimulationEngine \<Rightarrow> (real \<times> real \<times> real) list \<Rightarrow> 'p SimulationEngine option" where
  "steps e [] = Some e"
| "steps e ((duration, u_wait, u_cat) # rest) =
     (case step e duration u_wait u_cat of
        None \<Rightarrow> None
      | Some (r, e') \<Rightarrow> steps e' rest)"

text \<open>
  The cumulative probability of the category at position \<open>k\<close>, in list order, as the
  specification words the draw; it is compared with \<open>drawHurricaneDamage\<close> below.
\<close>

definition cumulative :: "HurricaneCategory list \<Rightarrow> nat \<Rightarrow> real" where
  "cumulative categories k = sum_list (map probability (take (Suc k) categories))"

section \<open>The state as objects in a store\<close>

text \<open>
  The accessors hand out copies, and whether a copy shares an object with the engine is a
  matter of references. For them the state is laid out as objects in a store: an address is
  an index of the store, \<^verbatim>\<open>new\<close> and every array or object literal allocate at the end. The
  objects are the arrays of numbers, the arrays of references (the hurricane log and the
  history), the \<^verbatim>\<open>HurricaneEvent\<close> records, the samples \<^verbatim>\<open>{ t, y }\<close> (with a reference to
  the array \<^verbatim>\<open>y\<close>), the set of extinct species, and the state object with its five fields
  (\<^verbatim>\<open>time\<close> and the references \<^verbatim>\<open>populations\<close>, \<^verbatim>\<open>hurricanes\<close>, \<^verbatim>\<open>extinctSpecies\<close>,
  \<^verbatim>\<open>history\<close>).
\<close>

type_synonym addr = nat

datatype obj =
    NumArray "real list"
  | ObjArray "addr list"
  | EventObj real string real
  | SampleObj real addr
  | SetObj "nat set"
  | StateObj real addr addr addr addr

type_synonym store = "obj list"

definition lookup :: "store \<Rightarrow> addr \<Rightarrow> obj option" where
  "lookup h a = (if a < length h then Some (h ! a) else None)"

definition alloc :: "store \<Rightarrow> obj \<Rightarrow> addr \<times> store" where
  "alloc h ob = (length h, h @ [ob])"

text \<open>
  The objects of a state as \<^verbatim>\<open>step\<close> builds them: every array and every record is an
  object of its own (\<^verbatim>\<open>step\<close> copies the populations into each sample it pushes).
\<close>

fun store_events :: "store \<Rightarrow> HurricaneEvent list \<Rightarrow> addr list \<times> store" where
  "store_events h [] = ([], h)"
| "store_events h (ev # evs) =
     (let (a, h1) = alloc h (EventObj (ev_time ev) (ev_category ev) (ev_damage ev));
          (as, h2) = store_events h1 evs
      in (a # as, h2))"

fun store_samples :: "store \<Rightarrow> sample list \<Rightarrow> addr list \<times> store" where
  "store_samples h [] = ([], h)"
| "store_samples h ((t, y) # rest) =
     (let (ay, h1) = alloc h (NumArray y);
          (a, h2) = alloc h1 (SampleObj t ay);
          (as, h3) = store_samples h2 rest
      in (a # as, h3))"

definition store_state :: "store \<Rightarrow> SimulationState \<Rightarrow> addr \<times> store" where
  "store_state h s =
     (let (p, h1) = alloc h (NumArray (populations s));
          (evs, h2) = store_events h1 (hurricanes s);
          (hu, h3) = alloc h2 (ObjArray evs);
          (ex, h4) = alloc h3 (SetObj (extinctSpecies s));
          (sms, h5) = store_samples h4 (history s);
          (hi, h6) = alloc h5 (ObjArray sms)
      in alloc h6 (StateObj (time s) p hu ex hi))"

text \<open>The state an address of the store stands for (\<open>None\<close> when the objects do not fit).\<close>

fun read_events :: "store \<Rightarrow> addr list \<Rightarrow> HurricaneEvent list option" where
  "read_events h [] = Some []"
| "read_events h (a # as) =
     (case lookup h a of
        Some (EventObj t c d) \<Rightarrow>
          map_option (\<lambda>evs. \<lparr>ev_time = t, ev_category = c, ev_damage = d\<rparr> # evs) (read_events h as)
      | _ \<Rightarrow> None)"

fun read_samples :: "store \<Rightarrow> addr list \<Rightarrow> sample list option" where
  "read_samples h [] = Some []"
| "read_samples h (a # as) =
     (case lookup h a of
        Some (SampleObj t ay) \<Rightarrow>
          (case lookup h ay of
             Some (NumArray y) \<Rightarrow> map_option (\<lambda>sms. (t, y) # sms) (read_samples h as)
           | _ \<Rightarrow> None)
      | _ \<Rightarrow> None)"

definition read_state :: "store \<Rightarrow> addr \<Rightarrow> SimulationState option" where
  "read_state h st =
     (case lookup h st of
        Some (StateObj t p hu ex hi) \<Rightarrow>
          (case (lookup h p, lookup h hu, lookup h ex, lookup h hi) of
             (Some (NumArray ps), Some (ObjArray evs), Some (SetObj xs), Some (ObjArray sms)) \<Rightarrow>
               (case (read_events h evs, read_samples h sms) of
                  (Some es, Some ss) \<Rightarrow>
                    Some \<lparr>time = t, populations = ps, hurricanes = es, extinctSpecies = xs, history = ss\<rparr>
                | _ \<Rightarrow> None)
           | _ \<Rightarrow> None)
      | _ \<Rightarrow> None)"

text \<open>
  The accessors. \<^verbatim>\<open>getTime\<close> returns a number; the others allocate what their array and
  object literals create and return the address of the result with the new store.
  \<^verbatim>\<open>[...this.state.hurricanes]\<close> is a new array of the same references;
  \<^verbatim>\<open>this.state.history.map(h => ({ ...h, y: [...h.y] }))\<close> is a new array of new samples
  with new arrays \<^verbatim>\<open>y\<close>.
\<close>

definition getTime :: "store \<Rightarrow> addr \<Rightarrow> real option" where
  "getTime h st = (case lookup h st of Some (StateObj t p hu ex hi) \<Rightarrow> Some t | _ \<Rightarrow> None)"

definition getPopulations :: "store \<Rightarrow> addr \<Rightarrow> (addr \<times> store) option" where
  "getPopulations h st =
     (case lookup h st of
        Some (StateObj t p hu ex hi) \<Rightarrow>
          (case lookup h p of Some (NumArray ps) \<Rightarrow> Some (alloc h (NumArray ps)) | _ \<Rightarrow> None)
      | _ \<Rightarrow> None)"

definition getHurricanes :: "store \<Rightarrow> addr \<Rightarrow> (addr \<times> store) option" where
  "getHurricanes h st =
     (case lookup h st of
        Some (StateObj t p hu ex hi) \<Rightarrow>
          (case lookup h hu of Some (ObjArray evs) \<Rightarrow> Some (alloc h (ObjArray evs)) | _ \<Rightarrow> None)
      | _ \<Rightarrow> None)"

fun copy_samples :: "store \<Rightarrow> addr list \<Rightarrow> (addr list \<times> store) option" where
  "copy_samples h [] = Some ([], h)"
| "copy_samples h (a # as) =
     (case lookup h a of
        Some (SampleObj t ay) \<Rightarrow>
          (case lookup h ay of
             Some (NumArray y) \<Rightarrow>
               (let (ay', h1) = alloc h (NumArray y);
                    (a', h2) = alloc h1 (SampleObj t ay')
                in map_option (\<lambda>(as', h3). (a' # as', h3)) (copy_samples h2 as))
           | _ \<Rightarrow> None)
      | _ \<Rightarrow> None)"

definition getState :: "store \<Rightarrow> addr \<Rightarrow> (addr \<times> store) option" where
  "getState h st =
     (case lookup h st of
        Some (StateObj t p hu ex hi) \<Rightarrow>
          (case (lookup h p, lookup h hu, lookup h ex, lookup h hi) of
             (Some (NumArray ps), Some (ObjArray evs), Some (SetObj xs), Some (ObjArray sms)) \<Rightarrow>
               (let (p', h1) = alloc h (NumArray ps);
                    (hu', h2) = alloc h1 (ObjArray evs);
                    (ex', h3) = alloc h2 (SetObj xs)
                in case copy_samples h3 sms of
                     None \<Rightarrow> None
                   | Some (sms', h4) \<Rightarrow>
                       (let (hi', h5) = alloc h4 (ObjArray sms')
                        in Some (alloc h5 (StateObj t p' hu' ex' hi'))))
           | _ \<Rightarrow> None)
      | _ \<Rightarrow> None)"

text \<open>
  Two writes of a caller: \<^verbatim>\<open>event.damage = v\<close> on a hurricane record and \<^verbatim>\<open>xs[i] = v\<close>
  on an array of numbers (for an index of the array).
\<close>

definition set_damage :: "store \<Rightarrow> addr \<Rightarrow> real \<Rightarrow> store" where
  "set_damage h a v = (case lookup h a of Some (EventObj t c d) \<Rightarrow> h[a := EventObj t c v] | _ \<Rightarrow> h)"

definition set_element :: "store \<Rightarrow> addr \<Rightarrow> nat \<Rightarrow> real \<Rightarrow> store" where
  "set_element h a i v =
     (case lookup h a of
        Some (NumArray xs) \<Rightarrow> if i < length xs then h[a := NumArray (xs[i := v])] else h
      | _ \<Rightarrow> h)"

section \<open>A test scenario\<close>

text \<open>
  The engine of the specification's shock scenarios: two species at population 1 with the
  vector field of the model (no interaction, growth rate 1, so that the populations rest at
  their equilibrium), threshold fraction 0.01, and two categories of probability 1/2 each,
  of damage 0.995 and 0.9.
\<close>

definition example_params :: EcologyParams where
  "example_params =
     \<lparr>Y_mut = [[0, 0], [0, 0]], Y_comp = [[0, 0], [0, 0]], r_vec = [1, 1], h_vec = [1, 1]\<rparr>"

definition example_config :: SimulationConfig where
  "example_config =
     \<lparr>hurricaneRate = 1,
      hurricaneCategories =
        [\<lparr>name = ''strong'', probability = 1 / 2, damage = 199 / 200\<rparr>,
         \<lparr>name = ''weak'', probability = 1 / 2, damage = 9 / 10\<rparr>],
      extinctionThreshold = 1 / 100,
      timeStep = 1 / 2\<rparr>"

definition example_engine :: "EcologyParams SimulationEngine" where
  "example_engine = new_SimulationEngine ecoDynamicsTypeII example_params [1, 1] example_config"

text \<open>The state of the scenario engine after a step with a weak hurricane at time 1/2.\<close>

definition shocked_state :: SimulationState where
  "shocked_state =
     \<lparr>time = 1 / 2, populations = [1 / 10, 1 / 10],
      hurricanes = [\<lparr>ev_time = 1 / 2, ev_category = ''weak'', ev_damage = 9 / 10\<rparr>],
      extinctSpecies = {},
      history = [(0, [1, 1]), (1 / 2, [1, 1]), (1 / 2, [1 / 10, 1 / 10])]\<rparr>"

section \<open>Predicates of the proofs\<close>

text \<open>
  The records a run of the loop appends after the record \<open>s\<close>: each is one \<open>rk4Step\<close> of
  size \<open>min dt (t1 - t)\<close> from the record before it. (A predicate of the proofs, not a
  function of the source.)
\<close>

fun rk4_chain :: "'p ODEFunction \<Rightarrow> real \<Rightarrow> real \<Rightarrow> 'p \<Rightarrow> sample \<Rightarrow> sample list \<Rightarrow> bool" where
  "rk4_chain f t1 dt params s [] = True"
| "rk4_chain f t1 dt params s (s' # rest) =
     (fst s < t1 \<and>
      s' = (fst s + min dt (t1 - fst s), rk4Step f (fst s) (snd s) (min dt (t1 - fst s)) params) \<and>
      rk4_chain f t1 dt params s' rest)"

section \<open>Basic facts\<close>

lemma length_mapi [simp]: "length (mapi g xs) = length xs"
  by (simp add: mapi_def)

lemma nth_mapi [simp]: "i < length xs \<Longrightarrow> mapi g xs ! i = g (xs ! i) i"
  by (simp add: mapi_def)

lemma length_ecoDynamicsTypeII [simp]: "length (ecoDynamicsTypeII t N params) = length N"
  by (simp add: ecoDynamicsTypeII_def Let_def)

lemma length_rk4Step [simp]: "length (rk4Step f t y dt params) = length y"
  by (simp add: rk4Step_def Let_def)

lemma mapi_eq_vadd_smul:
  assumes "length k = length y"
  shows "mapi (\<lambda>yi i. yi + c * k ! i) y = vadd y (smul c k)"
  using assms by (intro nth_equalityI) (simp_all add: vadd_def smul_def)


text \<open>The definitions that evaluate the test scenario.\<close>

lemmas example_defs = step_def example_engine_def example_config_def example_params_def new_SimulationEngine_def
      nextHurricane_def randomExponential_def integrateTo_def Let_def solveODE_def solveODE_loop.simps
      rk4Step_def mapi_def ecoDynamicsTypeII_def matVecMult_def typeIIResponse_def applyHurricane_def drawHurricaneDamage_def

lemmas store_defs = lookup_def alloc_def store_state_def read_state_def getTime_def getPopulations_def
  getHurricanes_def getState_def set_damage_def set_element_def shocked_state_def Let_def

section \<open>rk4Step is the classical Runge-Kutta update\<close>

text \<open>
  Claim C4. For a vector field \<open>f\<close> (it returns a vector as long as its argument),
  \<open>rk4Step f t y dt params\<close> is the classical four-stage update
  \<open>y + dt/6 \<cdot> (k1 + 2 k2 + 2 k3 + k4)\<close> with \<open>k1 = f(t, y)\<close>, \<open>k2 = f(t + dt/2, y + dt/2 \<cdot> k1)\<close>,
  \<open>k3 = f(t + dt/2, y + dt/2 \<cdot> k2)\<close>, \<open>k4 = f(t + dt, y + dt \<cdot> k3)\<close>, componentwise.
\<close>

theorem rk4Step_classical:
  assumes len: "\<forall>t y. length (f t y params) = length y"
  shows "rk4Step f t y dt params = rk4_classical f t y dt params"
proof -
  define k1 where "k1 = f t y params"
  define k2 where "k2 = f (t + dt / 2) (vadd y (smul (dt / 2) k1)) params"
  define k3 where "k3 = f (t + dt / 2) (vadd y (smul (dt / 2) k2)) params"
  define k4 where "k4 = f (t + dt) (vadd y (smul dt k3)) params"
  have lv: "length (vadd y (smul c k)) = length y" if "length k = length y" for c k
    using that by (simp add: vadd_def smul_def)
  have l1: "length k1 = length y" by (simp add: k1_def len)
  have l2: "length k2 = length y" by (simp add: k2_def len lv l1)
  have l3: "length k3 = length y" by (simp add: k3_def len lv l2)
  have l4: "length k4 = length y" by (simp add: k4_def len lv l3)
  have final: "mapi (\<lambda>yi i. yi + (dt / 6) * (k1 ! i + 2 * k2 ! i + 2 * k3 ! i + k4 ! i)) y
      = vadd y (smul (dt / 6) (vadd (vadd (vadd k1 (smul 2 k2)) (smul 2 k3)) k4))"
    using l1 l2 l3 l4 by (intro nth_equalityI) (simp_all add: vadd_def smul_def)
  have "rk4Step f t y dt params
      = mapi (\<lambda>yi i. yi + (dt / 6) * (k1 ! i + 2 * k2 ! i + 2 * k3 ! i + k4 ! i)) y"
    unfolding rk4Step_def Let_def
    by (simp only: mapi_eq_vadd_smul l1 l2 l3 flip: k1_def k2_def k3_def k4_def)
  also have "\<dots> = rk4_classical f t y dt params"
    unfolding rk4_classical_def Let_def
    by (simp only: final flip: k1_def k2_def k3_def k4_def)
  finally show ?thesis .
qed

theorem rk4Step_classical_witness:
  "(\<forall>t y. length (ecoDynamicsTypeII t y
        \<lparr>Y_mut = [[0, 1], [1, 0]], Y_comp = [[0, 0], [0, 0]], r_vec = [1, 1], h_vec = [0, 0]\<rparr>) = length y) \<and>
   rk4_classical ecoDynamicsTypeII 0 [1, 2] 1
        \<lparr>Y_mut = [[0, 1], [1, 0]], Y_comp = [[0, 0], [0, 0]], r_vec = [1, 1], h_vec = [0, 0]\<rparr>
     = [5 / 3, 4]"
proof -
  have h: "\<forall>t y. length (ecoDynamicsTypeII t y
        \<lparr>Y_mut = [[0, 1], [1, 0]], Y_comp = [[0, 0], [0, 0]], r_vec = [1, 1], h_vec = [0, 0]\<rparr>) = length y"
    by simp
  have "rk4Step ecoDynamicsTypeII 0 [1, 2] 1
        \<lparr>Y_mut = [[0, 1], [1, 0]], Y_comp = [[0, 0], [0, 0]], r_vec = [1, 1], h_vec = [0, 0]\<rparr>
     = [5 / 3, 4]"
    by (simp add: rk4Step_def Let_def mapi_def ecoDynamicsTypeII_def matVecMult_def typeIIResponse_def)
  then show ?thesis
    using h rk4Step_classical
      [where f = ecoDynamicsTypeII and t = 0 and y = "[1, 2]" and dt = 1
         and params = "\<lparr>Y_mut = [[0, 1], [1, 0]], Y_comp = [[0, 0], [0, 0]], r_vec = [1, 1], h_vec = [0, 0]\<rparr>"]
    by simp
qed

section \<open>solveODE in exact arithmetic\<close>

lemma solveODE_loop_returns:
  assumes "0 < dt"
  shows "\<exists>ext. solveODE_loop f t y t1 dt params solution = Some (solution @ ext) \<and>
               rk4_chain f t1 dt params (t, y) ext \<and>
               fst (last ((t, y) # ext)) = (if t < t1 then t1 else t)"
proof (induction "nat \<lceil>(t1 - t) / dt\<rceil>" arbitrary: t y solution rule: less_induct)
  case less
  show ?case
  proof (cases "t < t1")
    case False
    then show ?thesis by (simp add: solveODE_loop.simps)
  next
    case True
    define step where "step = min dt (t1 - t)"
    define y' where "y' = rk4Step f t y step params"
    define t' where "t' = t + step"
    have step_pos: "0 < step" using True assms by (simp add: step_def)
    have t'_le: "t' \<le> t1" by (simp add: t'_def step_def)
    have "nat \<lceil>(t1 - t') / dt\<rceil> < nat \<lceil>(t1 - t) / dt\<rceil>"
    proof (cases "dt \<le> t1 - t")
      case True
      then have "t' = t + dt" by (simp add: t'_def step_def)
      then have "(t1 - t') / dt = (t1 - t) / dt - 1"
        using assms by (simp add: field_simps)
      moreover have "0 < (t1 - t) / dt" using \<open>t < t1\<close> assms by simp
      ultimately show ?thesis by (simp add: ceiling_diff_one) 
    next
      case False
      then have "t' = t1" by (simp add: t'_def step_def)
      moreover have "0 < (t1 - t) / dt" using \<open>t < t1\<close> assms by simp
      ultimately show ?thesis by simp
    qed
    from less[OF this, of y' "solution @ [(t', y')]"]
    obtain ext where ext: "solveODE_loop f t' y' t1 dt params (solution @ [(t', y')]) = Some ((solution @ [(t', y')]) @ ext)"
      "rk4_chain f t1 dt params (t', y') ext"
      "fst (last ((t', y') # ext)) = (if t' < t1 then t1 else t')"
      by blast
    have eq: "solveODE_loop f t y t1 dt params solution = solveODE_loop f t' y' t1 dt params (solution @ [(t', y')])"
      using True by (subst solveODE_loop.simps) (simp add: Let_def step_def y'_def t'_def)
    have last_eq: "fst (last ((t', y') # ext)) = t1"
      using ext(3) t'_le by (auto split: if_splits)
    show ?thesis
      apply (rule exI[of _ "(t', y') # ext"])
      using eq ext True last_eq
      by (simp add: t'_def y'_def step_def)
  qed
qed

lemma solveODE_loop_diverges:
  assumes "solveODE_loop f t y t1 dt params solution = Some res"
  shows "0 < dt \<or> \<not> t < t1"
proof (rule solveODE_loop.raw_induct
        [where P = "\<lambda>f t y t1 dt params solution res. 0 < dt \<or> \<not> t < t1", OF _ assms])
  fix loop :: "'a ODEFunction \<Rightarrow> real \<Rightarrow> real list \<Rightarrow> real \<Rightarrow> real \<Rightarrow> 'a \<Rightarrow> sample list \<Rightarrow> sample list option"
    and g a v b d q sol r
  assume IH: "\<And>g a v b d q sol r. loop g a v b d q sol = Some r \<Longrightarrow> 0 < d \<or> \<not> a < b"
    and body: "(if a < b
      then let step = min d (b - a); y' = rk4Step g a v step q; t' = a + step
           in loop g t' y' b d q (sol @ [(t', y')])
      else Some sol) = Some r"
  show "0 < d \<or> \<not> a < b"
  proof (rule ccontr)
    assume "\<not> (0 < d \<or> \<not> a < b)"
    then have c: "d \<le> 0" "a < b" by auto
    then have "loop g (a + min d (b - a)) (rk4Step g a v (min d (b - a)) q) b d q
        (sol @ [(a + min d (b - a), rk4Step g a v (min d (b - a)) q)]) = Some r"
      using body by (simp add: Let_def)
    from IH[OF this] c show False by auto
  qed
qed

lemma rk4_chain_nth:
  assumes "rk4_chain f t1 dt params s ext" "k < length ext"
  shows "(s # ext) ! Suc k =
         (fst ((s # ext) ! k) + min dt (t1 - fst ((s # ext) ! k)),
          rk4Step f (fst ((s # ext) ! k)) (snd ((s # ext) ! k)) (min dt (t1 - fst ((s # ext) ! k))) params)"
  using assms
proof (induction ext arbitrary: s k)
  case Nil
  then show ?case by simp
next
  case (Cons a ext)
  then show ?case by (cases k) auto
qed

text \<open>
  In exact arithmetic, for \<open>t0 < t1\<close> and \<open>dt > 0\<close>, \<open>solveODE\<close> returns; its first record
  is \<open>(t0, y0)\<close>, each further record is one \<open>rk4Step\<close> of size \<open>min dt (t1 - t)\<close> from the
  record before it, and the time of the last record is \<open>t1\<close>.
\<close>

lemma solveODE_exact_endpoint:
  assumes "t0 < t1" and "0 < dt"
  shows "\<exists>sol. solveODE f y0 t0 t1 dt params = Some sol \<and> sol \<noteq> [] \<and>
           hd sol = (t0, y0) \<and> fst (last sol) = t1 \<and>
           (\<forall>k. Suc k < length sol \<longrightarrow>
              sol ! Suc k =
                (fst (sol ! k) + min dt (t1 - fst (sol ! k)),
                 rk4Step f (fst (sol ! k)) (snd (sol ! k)) (min dt (t1 - fst (sol ! k))) params))"
proof -
  from solveODE_loop_returns[OF assms(2), of f t0 y0 t1 params "[(t0, y0)]"]
  obtain ext where ext: "solveODE_loop f t0 y0 t1 dt params [(t0, y0)] = Some ([(t0, y0)] @ ext)"
    "rk4_chain f t1 dt params (t0, y0) ext"
    "fst (last ((t0, y0) # ext)) = (if t0 < t1 then t1 else t0)" by blast
  show ?thesis
    apply (rule exI[of _ "(t0, y0) # ext"])
    using ext assms rk4_chain_nth[OF ext(2)]
    by (simp add: solveODE_def)
qed


section \<open>solveODE in double precision\<close>

lemma fl_binade:
  assumes "x \<noteq> 0" and "2 powr of_int k \<le> \<bar>x\<bar>" and "\<bar>x\<bar> < 2 powr of_int (k + 1)"
  shows "fl x = of_int (roundHalfEven (x / 2 powr of_int (k - 52))) * 2 powr of_int (k - 52)"
proof -
  have "\<lfloor>log 2 \<bar>x\<bar>\<rfloor> = k"
    using assms by (subst floor_log_eq_powr_iff) simp_all
  then show ?thesis using assms(1) by (simp add: fl_def Let_def)
qed

lemma fl_a: "fl (3 / 2 ^ 54 - (- 1)) = 1 + 1 / 2 ^ 52"
  using fl_binade[of "3 / 2 ^ 54 - (- 1)" 0]
  by (simp add: roundHalfEven_def Let_def powr_minus)

lemma fl_b: "fl (- 1 + (1 + 1 / 2 ^ 52)) = 1 / 2 ^ 52"
  using fl_binade[of "- 1 + (1 + 1 / 2 ^ 52)" "- 52"]
  by (simp add: roundHalfEven_def Let_def powr_minus)

lemma fl_c: "fl (10 ^ 16 + 2 - 10 ^ 16) = 2"
  using fl_binade[of "10 ^ 16 + 2 - 10 ^ 16" 1]
  by (simp add: roundHalfEven_def Let_def powr_minus)

lemma fl_d: "fl (10 ^ 16 + 1 / 8) = 10 ^ 16"
  using fl_binade[of "10 ^ 16 + 1 / 8" 53]
  by (simp add: roundHalfEven_def Let_def powr_minus)


lemma fl_e: "fl (- 1) = - 1" and fl_f: "fl (3 / 2 ^ 54) = 3 / 2 ^ 54" and fl_g: "fl 2 = 2"
  and fl_h: "fl (10 ^ 16) = 10 ^ 16" and fl_i: "fl (10 ^ 16 + 2) = 10 ^ 16 + 2" and fl_j: "fl (1 / 8) = 1 / 8"
  using fl_binade[of "- 1" 0] fl_binade[of "3 / 2 ^ 54" "- 53"] fl_binade[of 2 1]
    fl_binade[of "10 ^ 16" 53] fl_binade[of "10 ^ 16 + 2" 53] fl_binade[of "1 / 8" "- 3"]
  by (simp_all add: roundHalfEven_def Let_def powr_minus)

lemma solveODE_loop_double_step:
  assumes "t < t1" and "min dt (fl (t1 - t)) = h" and "fl (t + h) = t'"
  shows "solveODE_loop_double f t y t1 dt params solution =
           solveODE_loop_double f t' (rk4Step f t y h params) t1 dt params
             (solution @ [(t', rk4Step f t y h params)])"
  using assms by (subst solveODE_loop_double.simps) (simp add: Let_def)

lemma solveODE_loop_double_stop:
  assumes "\<not> t < t1"
  shows "solveODE_loop_double f t y t1 dt params solution = Some solution"
  using assms by (subst solveODE_loop_double.simps) simp

lemma solveODE_double_never_returns:
  "solveODE_loop_double f (10 ^ 16) y (10 ^ 16 + 2) (1 / 8) params solution = None"
proof (rule ccontr)
  assume "solveODE_loop_double f (10 ^ 16) y (10 ^ 16 + 2) (1 / 8) params solution \<noteq> None"
  then obtain res where r: "solveODE_loop_double f (10 ^ 16) y (10 ^ 16 + 2) (1 / 8) params solution = Some res"
    by auto
  have h: "min (1 / 8) (fl (10 ^ 16 + 2 - 10 ^ 16)) = 1 / 8" using fl_c by simp
  have t': "fl (10 ^ 16 + 1 / 8) = 10 ^ 16" by (rule fl_d)
  have "\<not> (10 ^ 16 = (10 ^ 16 :: real) \<and> (10 ^ 16 + 2 :: real) = 10 ^ 16 + 2 \<and> (1 / 8 :: real) = 1 / 8)"
  proof (rule solveODE_loop_double.raw_induct
        [where P = "\<lambda>f t y t1 dt params solution res. \<not> (t = 10 ^ 16 \<and> t1 = 10 ^ 16 + 2 \<and> dt = 1 / 8)", OF _ r])
    fix loop :: "'a ODEFunction \<Rightarrow> real \<Rightarrow> real list \<Rightarrow> real \<Rightarrow> real \<Rightarrow> 'a \<Rightarrow> sample list \<Rightarrow> sample list option"
      and g a v b d q sol r
    assume IH: "\<And>g a v b d q sol r. loop g a v b d q sol = Some r \<Longrightarrow> \<not> (a = 10 ^ 16 \<and> b = 10 ^ 16 + 2 \<and> d = 1 / 8)"
      and body: "(if a < b
        then let step = min d (fl (b - a)); y' = rk4Step g a v step q; t' = fl (a + step)
             in loop g t' y' b d q (sol @ [(t', y')])
        else Some sol) = Some r"
    show "\<not> (a = 10 ^ 16 \<and> b = 10 ^ 16 + 2 \<and> d = 1 / 8)"
    proof
      assume c: "a = 10 ^ 16 \<and> b = 10 ^ 16 + 2 \<and> d = 1 / 8"
      then have ca: "a = 10 ^ 16" and cb: "b = 10 ^ 16 + 2" and cd: "d = 1 / 8" by blast+
      have lt: "(10 ^ 16 :: real) < 10 ^ 16 + 2" by simp
      have "loop g (10 ^ 16) (rk4Step g (10 ^ 16) v (1 / 8) q) (10 ^ 16 + 2) (1 / 8) q
          (sol @ [(10 ^ 16, rk4Step g (10 ^ 16) v (1 / 8) q)]) = Some r"
        using body unfolding ca cb cd Let_def h t' if_P[OF lt] .
      from IH[OF this] show False by simp
    qed
  qed
  then show False by simp
qed

text \<open>
  Claim C3. For \<open>t0 < t1\<close> and \<open>dt > 0\<close>, \<open>solveODE\<close> returns a sequence whose final record
  has the time \<open>t1\<close> exactly. The code shrinks the last step to \<open>t1 - t\<close> for this, but it
  computes the time in doubles, and there the claim fails. With \<open>t0 = -1\<close>,
  \<open>t1 = 3 \<cdot> 2^-54\<close>, \<open>dt = 2\<close> (all doubles), the remaining time \<open>t1 - t0\<close> rounds up to
  \<open>1 + 2^-52\<close>, and the run ends on \<open>2^-52\<close>, beyond \<open>t1\<close>. With \<open>t0 = 10^16\<close>,
  \<open>t1 = 10^16 + 2\<close>, \<open>dt = 1/8\<close> the sum \<open>t + dt\<close> rounds back to \<open>t\<close>, and the call never
  returns.
\<close>

theorem solveODE_misses_t1:
  "fl (- 1) = - 1 \<and> fl (3 / 2 ^ 54) = 3 / 2 ^ 54 \<and> fl 2 = 2 \<and>
   solveODE_double (\<lambda>t y p. map (\<lambda>v. 0) y) [1] (- 1) (3 / 2 ^ 54) 2 ()
     = Some [(- 1, [1]), (1 / 2 ^ 52, [1])] \<and>
   (1 / 2 ^ 52 :: real) \<noteq> 3 / 2 ^ 54 \<and>
   fl (10 ^ 16) = 10 ^ 16 \<and> fl (10 ^ 16 + 2) = 10 ^ 16 + 2 \<and> fl (1 / 8) = 1 / 8 \<and>
   solveODE_double (\<lambda>t y p. map (\<lambda>v. 0) y) [1] (10 ^ 16) (10 ^ 16 + 2) (1 / 8) () = None"
proof -
  have lt: "(- 1 :: real) < 3 / 2 ^ 54" by simp
  have h: "min 2 (fl (3 / 2 ^ 54 - (- 1))) = 1 + 1 / 2 ^ 52" using fl_a by simp
  have t': "fl (- 1 + (1 + 1 / 2 ^ 52)) = 1 / 2 ^ 52" by (rule fl_b)
  have stop: "\<not> (1 / 2 ^ 52 :: real) < 3 / 2 ^ 54" by simp
  have y: "rk4Step (\<lambda>t y p. map (\<lambda>v. 0) y) (- 1) [1] (1 + 1 / 2 ^ 52) () = [1]"
    by (simp add: rk4Step_def mapi_def Let_def)
  have run: "solveODE_double (\<lambda>t y p. map (\<lambda>v. 0) y) [1] (- 1) (3 / 2 ^ 54) 2 ()
     = Some [(- 1, [1]), (1 / 2 ^ 52, [1])]"
    unfolding solveODE_double_def
    by (simp only: solveODE_loop_double_step[OF lt h t'] y solveODE_loop_double_stop[OF stop] append.simps)
  have ne: "(1 / 2 ^ 52 :: real) \<noteq> 3 / 2 ^ 54" by simp
  have div: "solveODE_double (\<lambda>t y p. map (\<lambda>v. 0) y) [1] (10 ^ 16) (10 ^ 16 + 2) (1 / 8) () = None"
    unfolding solveODE_double_def by (rule solveODE_double_never_returns)
  from run ne div fl_e fl_f fl_g fl_h fl_i fl_j show ?thesis by (intro conjI)
qed

section \<open>The shock, and the step without an event\<close>

lemma eco_zero: "i < length N \<Longrightarrow> N ! i \<le> 0 \<Longrightarrow> ecoDynamicsTypeII t N params ! i = 0"
  by (simp add: ecoDynamicsTypeII_def Let_def)

lemma rk4_zero:
  assumes "i < length y" "y ! i = 0"
  shows "rk4Step ecoDynamicsTypeII t y dt params ! i = 0"
  using assms by (simp add: rk4Step_def Let_def eco_zero)


lemma applyDamage_Cons_fst:
  "fst (applyDamage D thr (p # pops) k ex) =
     (if k < length thr \<and> p * (1 - D) < thr ! k then 0 else p * (1 - D)) #
     fst (applyDamage D thr pops (Suc k)
            (if k < length thr \<and> p * (1 - D) < thr ! k then insert k ex else ex))"
  by (simp add: Let_def split: prod.splits)


lemma applyDamage_length: "length (fst (applyDamage D thr pops k ex)) = length pops"
proof (induction pops arbitrary: k ex)
  case Nil
  show ?case by simp
next
  case (Cons p pops)
  show ?case unfolding applyDamage_Cons_fst by (simp add: Cons)
qed

lemma applyDamage_nth_gen:
  "i < length pops \<Longrightarrow>
   fst (applyDamage D thr pops k ex) ! i =
     (if k + i < length thr \<and> pops ! i * (1 - D) < thr ! (k + i) then 0 else pops ! i * (1 - D))"
proof (induction pops arbitrary: k ex i)
  case Nil
  then show ?case by simp
next
  case (Cons p pops)
  show ?case
  proof (cases i)
    case 0
    then show ?thesis unfolding applyDamage_Cons_fst by simp
  next
    case (Suc n)
    then have "n < length pops" using Cons.prems by simp
    from Cons.IH[OF this] show ?thesis
      unfolding applyDamage_Cons_fst Suc by simp
  qed
qed


lemma applyDamage_nth:
  assumes "i < length pops"
  shows "fst (applyDamage D thr pops 0 ex) ! i =
           (if i < length thr \<and> pops ! i * (1 - D) < thr ! i then 0 else pops ! i * (1 - D))"
  using applyDamage_nth_gen[OF assms, of D thr 0 ex] by simp



lemma integrateTo_frame:
  assumes "integrateTo e t = Some st1"
  shows "hurricanes st1 = hurricanes (state e) \<and> extinctSpecies st1 = extinctSpecies (state e)"
  using assms by (auto simp: integrateTo_def Let_def split: if_splits option.splits)


lemma solveODE_SomeE:
  assumes "solveODE f y0 t0 t1 dt params = Some sol" and "t0 < t1"
  obtains ext where "sol = (t0, y0) # ext" and "ext \<noteq> []" and "rk4_chain f t1 dt params (t0, y0) ext"
    and "fst (last ext) = t1" and "0 < dt"
proof -
  have dt: "0 < dt"
    using solveODE_loop_diverges[of f t0 y0 t1 dt params "[(t0, y0)]" sol] assms
    by (simp add: solveODE_def)
  from solveODE_loop_returns[OF dt, of f t0 y0 t1 params "[(t0, y0)]"]
  obtain ext where ext: "solveODE_loop f t0 y0 t1 dt params [(t0, y0)] = Some ([(t0, y0)] @ ext)"
    "rk4_chain f t1 dt params (t0, y0) ext"
    "fst (last ((t0, y0) # ext)) = (if t0 < t1 then t1 else t0)" by blast
  have sol: "sol = (t0, y0) # ext" using ext(1) assms(1) by (simp add: solveODE_def)
  have ne: "ext \<noteq> []" using ext(3) assms(2) by auto
  show thesis using that[OF sol ne ext(2) _ dt] ext(3) ne assms(2) by simp
qed


lemma rk4_chain_times:
  assumes "rk4_chain f t1 dt params s ext" and "0 < dt"
  shows "sorted_wrt (<) (map fst (s # ext))"
  using assms
proof (induction ext arbitrary: s)
  case Nil
  then show ?case by simp
next
  case (Cons a ext)
  then have a: "fst s < fst a" and ch: "rk4_chain f t1 dt params a ext" by auto
  from Cons.IH[OF ch Cons.prems(2)] have "sorted_wrt (<) (map fst (a # ext))" .
  with a show ?case by force
qed

lemma rk4_chain_zero:
  assumes "rk4_chain ecoDynamicsTypeII t1 dt params s ext"
    and "i < length (snd s)" and "snd s ! i = 0"
  shows "\<forall>s' \<in> set ext. i < length (snd s') \<and> snd s' ! i = 0"
  using assms
proof (induction ext arbitrary: s)
  case Nil
  then show ?case by simp
next
  case (Cons a ext)
  then have a: "snd a = rk4Step ecoDynamicsTypeII (fst s) (snd s) (min dt (t1 - fst s)) params"
    and ch: "rk4_chain ecoDynamicsTypeII t1 dt params a ext" by auto
  have a0: "i < length (snd a) \<and> snd a ! i = 0"
    using a Cons.prems(2,3) by (simp add: rk4_zero)
  with Cons.IH[OF ch] show ?case by simp
qed









section \<open>Zero is absorbing\<close>

lemma integrateTo_zero:
  assumes "integrateTo e t = Some st1" and "odeFunction e = ecoDynamicsTypeII"
    and "i < length (populations (state e))" and "populations (state e) ! i = 0"
  shows "i < length (populations st1) \<and> populations st1 ! i = 0"
proof (cases "t > time (state e)")
  case False
  then show ?thesis using assms by (auto simp: integrateTo_def Let_def)
next
  case True
  then obtain sol where sol: "solveODE ecoDynamicsTypeII (populations (state e)) (time (state e)) t
        (timeStep (config e)) (ecologyParams e) = Some sol"
    and p: "populations st1 = snd (last sol)"
    using assms(1,2) by (auto simp: integrateTo_def Let_def split: option.splits)
  from solveODE_SomeE[OF sol True] obtain ext where
    ext: "sol = (time (state e), populations (state e)) # ext" "ext \<noteq> []"
      "rk4_chain ecoDynamicsTypeII t (timeStep (config e)) (ecologyParams e) (time (state e), populations (state e)) ext"
    by blast
  have "last sol \<in> set ext" using ext(1,2) by simp
  with rk4_chain_zero[OF ext(3)] assms(3,4) show ?thesis by (simp add: p)
qed

lemma applyHurricane_Inr:
  assumes "applyHurricane e st1 th u = Inr st2"
  shows "\<exists>lab D. drawHurricaneDamage (hurricaneCategories (config e)) u = Inr (lab, D) \<and>
           st2 = st1\<lparr>hurricanes := hurricanes st1 @ [\<lparr>ev_time = th, ev_category = lab, ev_damage = D\<rparr>],
                     populations := fst (applyDamage D (extinctionThresholds e) (populations st1) 0 (extinctSpecies st1)),
                     extinctSpecies := snd (applyDamage D (extinctionThresholds e) (populations st1) 0 (extinctSpecies st1)),
                     history := history st1 @
                        [(th, fst (applyDamage D (extinctionThresholds e) (populations st1) 0 (extinctSpecies st1)))]\<rparr>"
proof (cases "drawHurricaneDamage (hurricaneCategories (config e)) u")
  case (Inl err)
  then show ?thesis using assms by (simp add: applyHurricane_def)
next
  case (Inr r)
  obtain lab D where r: "r = (lab, D)" by (cases r)
  obtain pops ex where ad: "applyDamage D (extinctionThresholds e) (populations st1) 0 (extinctSpecies st1) = (pops, ex)"
    by (cases "applyDamage D (extinctionThresholds e) (populations st1) 0 (extinctSpecies st1)") auto
  show ?thesis
    using assms Inr r ad by (auto simp: applyHurricane_def Let_def)
qed


text \<open>
  Claim C2. Zero is absorbing. For every population vector \<open>N\<close> and index \<open>i\<close> with
  \<open>N ! i \<le> 0\<close> the vector field gives 0 at \<open>i\<close>, whatever the other components and the
  parameters. Hence a component equal to 0 is 0 after an \<open>rk4Step\<close> with this field and
  after the multiplication by the shock damage, and after any \<open>step\<close> of an engine that
  runs this field.
\<close>

theorem zero_is_absorbing:
  assumes i: "i < length N"
  shows "(N ! i \<le> 0 \<longrightarrow> ecoDynamicsTypeII t N params ! i = 0) \<and>
         (N ! i = 0 \<longrightarrow> rk4Step ecoDynamicsTypeII t N dt params ! i = 0) \<and>
         (N ! i = 0 \<longrightarrow> fst (applyDamage D thresholds N 0 extinct) ! i = 0) \<and>
         (\<forall>e duration u_wait u_cat r e'.
            odeFunction e = ecoDynamicsTypeII \<and> populations (state e) = N \<and> N ! i = 0 \<and>
            step e duration u_wait u_cat = Some (r, e')
            \<longrightarrow> i < length (populations (state e')) \<and> populations (state e') ! i = 0)"
proof (intro conjI impI allI)
  assume "N ! i \<le> 0"
  then show "ecoDynamicsTypeII t N params ! i = 0" using i by (simp add: eco_zero)
next
  assume "N ! i = 0"
  then show "rk4Step ecoDynamicsTypeII t N dt params ! i = 0" using i by (simp add: rk4_zero)
next
  assume "N ! i = 0"
  then show "fst (applyDamage D thresholds N 0 extinct) ! i = 0"
    using i by (simp add: applyDamage_nth)
next
  fix e :: "EcologyParams SimulationEngine" and duration u_wait u_cat r e'
  assume a: "odeFunction e = ecoDynamicsTypeII \<and> populations (state e) = N \<and> N ! i = 0 \<and>
            step e duration u_wait u_cat = Some (r, e')"
  define tEnd where "tEnd = (case nextHurricane e duration u_wait of None \<Rightarrow> time (state e) + duration | Some t \<Rightarrow> t)"
  from a obtain st1 where st1: "integrateTo e tEnd = Some st1"
    by (auto simp: step_def Let_def tEnd_def split: option.splits)
  have z1: "i < length (populations st1) \<and> populations st1 ! i = 0"
    using integrateTo_zero[OF st1] a i by simp
  have "i < length (populations (state e')) \<and> populations (state e') ! i = 0"
  proof (cases "nextHurricane e duration u_wait")
    case None
    then have "e' = e\<lparr>state := st1\<rparr>" using a st1 by (simp add: step_def Let_def tEnd_def)
    then show ?thesis using z1 by simp
  next
    case (Some th)
    show ?thesis
    proof (cases "applyHurricane e st1 th u_cat")
      case (Inl err)
      then have "e' = e\<lparr>state := st1\<rparr>" using a st1 Some by (simp add: step_def Let_def tEnd_def)
      then show ?thesis using z1 by simp
    next
      case (Inr st2)
      then have e': "e' = e\<lparr>state := st2\<rparr>" using a st1 Some by (simp add: step_def Let_def tEnd_def)
      from applyHurricane_Inr[OF Inr] obtain D' where
        "populations st2 = fst (applyDamage D' (extinctionThresholds e) (populations st1) 0 (extinctSpecies st1))"
        by auto
      then show ?thesis using z1 e' by (simp add: applyDamage_length applyDamage_nth)
    qed
  qed
  then show "i < length (populations (state e'))" and "populations (state e') ! i = 0" by simp_all
qed

theorem zero_is_absorbing_witness:
  "(1::nat) < length [1, 0 :: real] \<and>
   ecoDynamicsTypeII 0 [1, 0] example_params ! 1 = 0 \<and>
   rk4Step ecoDynamicsTypeII 0 [1, 0] (1 / 2) example_params ! 1 = 0 \<and>
   fst (applyDamage (9 / 10) [1 / 100, 1 / 100] [1, 0] 0 {}) ! 1 = 0"
  using zero_is_absorbing
    [where i = 1 and N = "[1, 0]" and t = 0 and params = example_params and dt = "1 / 2"
       and D = "9 / 10" and thresholds = "[1 / 100, 1 / 100]" and extinct = "{}"]
  by simp

section \<open>The history log\<close>

lemma randomExponential_nonneg:
  assumes "0 < lambda" and "0 \<le> u" and "u < 1"
  shows "0 \<le> randomExponential lambda u"
proof -
  have "ln (1 - u) \<le> 0" using assms by simp
  then have "ln (1 - u) / lambda \<le> 0" using assms(1) by (rule divide_nonpos_pos)
  then show ?thesis by (simp add: randomExponential_def)
qed

lemma nextHurricane_Some:
  assumes "nextHurricane e duration u = Some th" and "0 \<le> u" and "u < 1"
  shows "time (state e) \<le> th \<and> th \<le> time (state e) + duration"
proof -
  from assms(1) have rate: "0 < hurricaneRate (config e)"
    and th: "th = time (state e) + randomExponential (hurricaneRate (config e)) u"
    and le: "th \<le> time (state e) + duration"
    by (auto simp: nextHurricane_def Let_def split: if_splits)
  from randomExponential_nonneg[OF rate assms(2,3)] th le show ?thesis by simp
qed

lemma sorted_le_last:
  assumes "sorted xs" and "x \<in> set xs"
  shows "x \<le> last xs"
  using assms by (induction xs) (auto split: if_splits)

text \<open>The order of the history: strictly increasing but for a sample taken at a shock.\<close>

lemma integrateTo_history:
  assumes st1: "integrateTo e t = Some st1"
    and ne: "history (state e) \<noteq> []"
    and srt: "sorted_wrt (\<lambda>x y. x < y \<or> (x = y \<and> y \<in> H)) (map fst (history (state e)))"
    and lst: "fst (last (history (state e))) = time (state e)"
  shows "\<exists>ext. history st1 = history (state e) @ ext \<and>
           sorted_wrt (\<lambda>x y. x < y \<or> (x = y \<and> y \<in> H)) (map fst (history st1)) \<and>
           fst (last (history st1)) = time st1 \<and>
           time st1 = (if t > time (state e) then t else time (state e))"
proof (cases "t > time (state e)")
  case False
  then have "st1 = state e" using st1 by (simp add: integrateTo_def Let_def)
  then show ?thesis using srt lst False by simp
next
  case True
  then obtain sol where sol: "solveODE (odeFunction e) (populations (state e)) (time (state e)) t
        (timeStep (config e)) (ecologyParams e) = Some sol"
    and eq: "st1 = (state e)\<lparr>history := history (state e) @ tl sol, time := t, populations := snd (last sol)\<rparr>"
    using st1 by (auto simp: integrateTo_def Let_def split: option.splits)
  from solveODE_SomeE[OF sol True] obtain ext where
    ext: "sol = (time (state e), populations (state e)) # ext" "ext \<noteq> []"
      "rk4_chain (odeFunction e) t (timeStep (config e)) (ecologyParams e) (time (state e), populations (state e)) ext"
      "fst (last ext) = t" "0 < timeStep (config e)"
    by blast
  have strict: "sorted_wrt (<) (map fst ((time (state e), populations (state e)) # ext))"
    using rk4_chain_times[OF ext(3,5)] .
  then have gt: "\<forall>y \<in> set (map fst ext). time (state e) < y" and s_ext: "sorted_wrt (<) (map fst ext)"
    by auto
  have weak: "sorted (map fst (history (state e)))"
    using srt by (rule sorted_wrt_mono_rel[rotated]) auto
  have le: "\<forall>x \<in> set (map fst (history (state e))). x \<le> time (state e)"
  proof
    fix x assume x: "x \<in> set (map fst (history (state e)))"
    from sorted_le_last[OF weak x] have "x \<le> last (map fst (history (state e)))" .
    then show "x \<le> time (state e)" using ne lst by (simp add: last_map)
  qed
  have s_ext': "sorted_wrt (\<lambda>x y. x < y \<or> (x = y \<and> y \<in> H)) (map fst ext)"
    using s_ext by (rule sorted_wrt_mono_rel[rotated]) auto
  have "sorted_wrt (\<lambda>x y. x < y \<or> (x = y \<and> y \<in> H)) (map fst (history (state e)) @ map fst ext)"
    unfolding sorted_wrt_append using srt s_ext' le gt by fastforce
  then show ?thesis
    using True ext(1,2,4) by (simp add: eq)
qed

lemma sorted_wrt_shock_mono:
  assumes "sorted_wrt (\<lambda>x y. x < y \<or> (x = y \<and> y \<in> H)) xs" and "H \<subseteq> H'"
  shows "sorted_wrt (\<lambda>x y. x < y \<or> (x = y \<and> y \<in> H')) xs"
  using assms(1) by (rule sorted_wrt_mono_rel[rotated]) (use assms(2) in auto)

lemma step_history:
  assumes st: "step e d u_wait u_cat = Some (r, e')"
    and u: "0 \<le> u_wait" "u_wait < 1"
    and ne: "history (state e) \<noteq> []"
    and srt: "sorted_wrt (\<lambda>x y. x < y \<or> (x = y \<and> y \<in> ev_time ` set (hurricanes (state e))))
                (map fst (history (state e)))"
    and lst: "fst (last (history (state e))) = time (state e)"
  shows "\<exists>ext. history (state e') = history (state e) @ ext \<and>
           sorted_wrt (\<lambda>x y. x < y \<or> (x = y \<and> y \<in> ev_time ` set (hurricanes (state e'))))
                (map fst (history (state e'))) \<and>
           fst (last (history (state e'))) = time (state e') \<and>
           (\<forall>th. r = Inr (Some th) \<longrightarrow>
              ext \<noteq> [] \<and> last ext = (th, populations (state e')) \<and>
              (\<exists>lab D. hurricanes (state e') =
                  hurricanes (state e) @ [\<lparr>ev_time = th, ev_category = lab, ev_damage = D\<rparr>])) \<and>
           ((\<forall>th. r \<noteq> Inr (Some th)) \<longrightarrow> hurricanes (state e') = hurricanes (state e))"
proof -
  define tEnd where "tEnd = (case nextHurricane e d u_wait of None \<Rightarrow> time (state e) + d | Some t \<Rightarrow> t)"
  from st obtain st1 where st1: "integrateTo e tEnd = Some st1"
    by (auto simp: step_def Let_def tEnd_def split: option.splits)
  from integrateTo_history[OF st1 ne srt lst] obtain ext1 where
    h1: "history st1 = history (state e) @ ext1"
    and s1: "sorted_wrt (\<lambda>x y. x < y \<or> (x = y \<and> y \<in> ev_time ` set (hurricanes (state e)))) (map fst (history st1))"
    and l1: "fst (last (history st1)) = time st1"
    and t1: "time st1 = (if tEnd > time (state e) then tEnd else time (state e))"
    by blast
  note fr = integrateTo_frame[OF st1]
  show ?thesis
  proof (cases "nextHurricane e d u_wait")
    case None
    then have "r = Inr None" "e' = e\<lparr>state := st1\<rparr>"
      using st st1 by (simp_all add: step_def Let_def tEnd_def)
    then show ?thesis using h1 s1 l1 fr by simp
  next
    case (Some th)
    from nextHurricane_Some[OF Some u] have th: "time (state e) \<le> th" by simp
    have tEnd: "tEnd = th" by (simp add: tEnd_def Some)
    have time1: "time st1 = th" using t1 th tEnd by auto
    show ?thesis
    proof (cases "applyHurricane e st1 th u_cat")
      case (Inl err)
      then have "r = Inl err" "e' = e\<lparr>state := st1\<rparr>"
        using st st1 Some by (simp_all add: step_def Let_def tEnd_def)
      then show ?thesis using h1 s1 l1 fr by simp
    next
      case (Inr st2)
      then have r: "r = Inr (Some th)" and e': "e' = e\<lparr>state := st2\<rparr>"
        using st st1 Some by (simp_all add: step_def Let_def tEnd_def)
      from applyHurricane_Inr[OF Inr] obtain lab D where
        st2: "st2 = st1\<lparr>hurricanes := hurricanes st1 @ [\<lparr>ev_time = th, ev_category = lab, ev_damage = D\<rparr>],
                     populations := fst (applyDamage D (extinctionThresholds e) (populations st1) 0 (extinctSpecies st1)),
                     extinctSpecies := snd (applyDamage D (extinctionThresholds e) (populations st1) 0 (extinctSpecies st1)),
                     history := history st1 @
                        [(th, fst (applyDamage D (extinctionThresholds e) (populations st1) 0 (extinctSpecies st1)))]\<rparr>"
        by blast
      have ne1: "history st1 \<noteq> []" using h1 ne by simp
      have weak: "sorted (map fst (history st1))"
        using s1 by (rule sorted_wrt_mono_rel[rotated]) auto
      have le: "\<forall>x \<in> set (map fst (history st1)). x \<le> th"
      proof
        fix x assume x: "x \<in> set (map fst (history st1))"
        from sorted_le_last[OF weak x] have "x \<le> last (map fst (history st1))" .
        then show "x \<le> th" using ne1 l1 time1 by (simp add: last_map)
      qed
      have s1': "sorted_wrt (\<lambda>x y. x < y \<or> (x = y \<and> y \<in> ev_time ` set (hurricanes st2))) (map fst (history st1))"
        using s1 by (rule sorted_wrt_shock_mono) (auto simp: st2 fr)
      have thH: "th \<in> ev_time ` set (hurricanes st2)" by (simp add: st2)
      have s2: "sorted_wrt (\<lambda>x y. x < y \<or> (x = y \<and> y \<in> ev_time ` set (hurricanes st2))) (map fst (history st2))"
      proof -
        have "map fst (history st2) = map fst (history st1) @ [th]" by (simp add: st2)
        moreover have "\<forall>x \<in> set (map fst (history st1)). x < th \<or> (x = th \<and> th \<in> ev_time ` set (hurricanes st2))"
          using le thH by fastforce
        ultimately show ?thesis using s1' by (simp add: sorted_wrt_append)
      qed
      have h2: "history st2 = history (state e) @ (ext1 @ [(th, populations st2)])"
        by (simp add: st2 h1)
      have l2: "fst (last (history st2)) = time st2" by (simp add: st2 time1)
      have hu: "hurricanes st2 = hurricanes (state e) @ [\<lparr>ev_time = th, ev_category = lab, ev_damage = D\<rparr>]"
        by (simp add: st2 fr)
      show ?thesis
        apply (rule exI[of _ "ext1 @ [(th, populations st2)]"])
        using h2 s2 l2 hu r e' by simp
    qed
  qed
qed

lemma steps_history:
  assumes "steps e inputs = Some e'"
    and "\<forall>(d, u_wait, u_cat) \<in> set inputs. 0 \<le> u_wait \<and> u_wait < 1"
    and "history (state e) \<noteq> []"
    and "sorted_wrt (\<lambda>x y. x < y \<or> (x = y \<and> y \<in> ev_time ` set (hurricanes (state e))))
                (map fst (history (state e)))"
    and "fst (last (history (state e))) = time (state e)"
    and "\<forall>h \<in> set (hurricanes (state e)). \<exists>y. (ev_time h, y) \<in> set (history (state e))"
  shows "(\<exists>ext. history (state e') = history (state e) @ ext) \<and>
         sorted_wrt (\<lambda>x y. x < y \<or> (x = y \<and> y \<in> ev_time ` set (hurricanes (state e'))))
                (map fst (history (state e'))) \<and>
         fst (last (history (state e'))) = time (state e') \<and>
         (\<forall>h \<in> set (hurricanes (state e')). \<exists>y. (ev_time h, y) \<in> set (history (state e')))"
  using assms
proof (induction inputs arbitrary: e)
  case Nil
  then show ?case by simp
next
  case (Cons inp inputs)
  obtain d u_wait u_cat where inp: "inp = (d, u_wait, u_cat)" by (cases inp)
  from Cons.prems(1) obtain r em where
    st: "step e d u_wait u_cat = Some (r, em)" and rest: "steps em inputs = Some e'"
    by (auto simp: inp split: option.splits)
  have u: "0 \<le> u_wait" "u_wait < 1" using Cons.prems(2) by (auto simp: inp)
  from step_history[OF st u Cons.prems(3,4,5)] obtain ext where
    h: "history (state em) = history (state e) @ ext"
    and s: "sorted_wrt (\<lambda>x y. x < y \<or> (x = y \<and> y \<in> ev_time ` set (hurricanes (state em))))
                (map fst (history (state em)))"
    and l: "fst (last (history (state em))) = time (state em)"
    and ev: "\<forall>th. r = Inr (Some th) \<longrightarrow>
              ext \<noteq> [] \<and> last ext = (th, populations (state em)) \<and>
              (\<exists>lab D. hurricanes (state em) =
                  hurricanes (state e) @ [\<lparr>ev_time = th, ev_category = lab, ev_damage = D\<rparr>])"
    and nev: "(\<forall>th. r \<noteq> Inr (Some th)) \<longrightarrow> hurricanes (state em) = hurricanes (state e)"
    by blast
  have ne: "history (state em) \<noteq> []" using h Cons.prems(3) by simp
  have hs: "\<forall>h \<in> set (hurricanes (state em)). \<exists>y. (ev_time h, y) \<in> set (history (state em))"
  proof (cases "\<exists>th. r = Inr (Some th)")
    case False
    then show ?thesis using nev Cons.prems(6) h by auto
  next
    case True
    then obtain th where r: "r = Inr (Some th)" by blast
    from ev r obtain lab D where ext: "ext \<noteq> []" "last ext = (th, populations (state em))"
      and hu: "hurricanes (state em) = hurricanes (state e) @ [\<lparr>ev_time = th, ev_category = lab, ev_damage = D\<rparr>]"
      by blast
    have "(th, populations (state em)) \<in> set ext" using ext last_in_set by metis
    then show ?thesis using Cons.prems(6) h hu by auto
  qed
  have "\<forall>(d, u_wait, u_cat) \<in> set inputs. 0 \<le> u_wait \<and> u_wait < 1" using Cons.prems(2) by simp
  from Cons.IH[OF rest this ne s l hs] h show ?case by auto
qed


text \<open>
  Claim C6, amended. After any sequence of \<open>step\<close> calls on a freshly constructed or reset
  engine (the draws being numbers of \<open>[0, 1)\<close>), the history starts with the sample
  \<open>(0, initial populations)\<close>, its times never decrease, and two samples have the same time
  only if that is the time of a recorded hurricane; every recorded hurricane has a sample at
  its time; a further \<open>step\<close> only appends to the history, and when it applies a shock the
  last sample appended is the event time with the populations after the shock.
\<close>

theorem history_log_ordered:
  assumes fresh: "e0 = new_SimulationEngine f eparams initPops cfg \<or> e0 = reset e newPops"
    and run: "steps e0 inputs = Some e1"
    and draws: "\<forall>(d, u_wait, u_cat) \<in> set inputs. 0 \<le> u_wait \<and> u_wait < 1"
  shows "(\<exists>ext. history (state e1) = (0, initialPopulations e0) # ext) \<and>
         sorted (map fst (history (state e1))) \<and>
         sorted_wrt (\<lambda>x y. x < y \<or> (x = y \<and> y \<in> ev_time ` set (hurricanes (state e1))))
            (map fst (history (state e1))) \<and>
         (\<forall>h \<in> set (hurricanes (state e1)). \<exists>y. (ev_time h, y) \<in> set (history (state e1))) \<and>
         (\<forall>d u_wait u_cat r e2.
            0 \<le> u_wait \<and> u_wait < 1 \<and> step e1 d u_wait u_cat = Some (r, e2) \<longrightarrow>
            (\<exists>ext. history (state e2) = history (state e1) @ ext \<and>
                   (\<forall>th. r = Inr (Some th) \<longrightarrow>
                      ext \<noteq> [] \<and> last ext = (th, populations (state e2)))))"
proof -
  have st0: "state e0 = \<lparr>time = 0, populations = initialPopulations e0, hurricanes = [],
                extinctSpecies = {}, history = [(0, initialPopulations e0)]\<rparr>"
    using fresh by (auto simp: new_SimulationEngine_def reset_def Let_def split: option.splits)
  have i1: "history (state e0) \<noteq> []" and i3: "fst (last (history (state e0))) = time (state e0)"
    and i2: "sorted_wrt (\<lambda>x y. x < y \<or> (x = y \<and> y \<in> ev_time ` set (hurricanes (state e0))))
                (map fst (history (state e0)))"
    and i4: "\<forall>h \<in> set (hurricanes (state e0)). \<exists>y. (ev_time h, y) \<in> set (history (state e0))"
    by (simp_all add: st0)
  from steps_history[OF run draws i1 i2 i3 i4] obtain ext where
    h: "history (state e1) = history (state e0) @ ext"
    and s: "sorted_wrt (\<lambda>x y. x < y \<or> (x = y \<and> y \<in> ev_time ` set (hurricanes (state e1))))
                (map fst (history (state e1)))"
    and l: "fst (last (history (state e1))) = time (state e1)"
    and hs: "\<forall>h \<in> set (hurricanes (state e1)). \<exists>y. (ev_time h, y) \<in> set (history (state e1))"
    by blast
  have ne: "history (state e1) \<noteq> []" using h i1 by simp
  have weak: "sorted (map fst (history (state e1)))"
    using s by (rule sorted_wrt_mono_rel[rotated]) auto
  have first: "\<exists>ext. history (state e1) = (0, initialPopulations e0) # ext"
    using h by (simp add: st0)
  have nxt: "\<exists>ext. history (state e2) = history (state e1) @ ext \<and>
                   (\<forall>th. r = Inr (Some th) \<longrightarrow> ext \<noteq> [] \<and> last ext = (th, populations (state e2)))"
    if "0 \<le> u_wait \<and> u_wait < 1 \<and> step e1 d u_wait u_cat = Some (r, e2)"
    for d u_wait u_cat r e2
  proof -
    from that have a: "step e1 d u_wait u_cat = Some (r, e2)" "0 \<le> u_wait" "u_wait < 1" by auto
    from step_history[OF a ne s l] show ?thesis by blast
  qed
  show ?thesis
  proof (intro conjI allI impI)
    show "\<exists>ext. history (state e1) = (0, initialPopulations e0) # ext" by (rule first)
    show "sorted (map fst (history (state e1)))" by (rule weak)
    show "sorted_wrt (\<lambda>x y. x < y \<or> (x = y \<and> y \<in> ev_time ` set (hurricanes (state e1))))
            (map fst (history (state e1)))" by (rule s)
    show "\<forall>h \<in> set (hurricanes (state e1)). \<exists>y. (ev_time h, y) \<in> set (history (state e1))"
      by (rule hs)
  next
    fix d u_wait u_cat r e2
    assume "0 \<le> u_wait \<and> u_wait < 1 \<and> step e1 d u_wait u_cat = Some (r, e2)"
    then show "\<exists>ext. history (state e2) = history (state e1) @ ext \<and>
                   (\<forall>th. r = Inr (Some th) \<longrightarrow>
                      ext \<noteq> [] \<and> last ext = (th, populations (state e2)))"
      by (rule nxt)
  qed
qed


theorem history_log_ordered_witness:
  "(example_engine = new_SimulationEngine ecoDynamicsTypeII example_params [1, 1] example_config \<or>
    example_engine = reset example_engine None) \<and>
   steps example_engine [(1, 1 - exp (- (1 / 2)), 3 / 4)] =
     Some (example_engine\<lparr>state := \<lparr>time = 1 / 2, populations = [1 / 10, 1 / 10],
        hurricanes = [\<lparr>ev_time = 1 / 2, ev_category = ''weak'', ev_damage = 9 / 10\<rparr>],
        extinctSpecies = {}, history = [(0, [1, 1]), (1 / 2, [1, 1]), (1 / 2, [1 / 10, 1 / 10])]\<rparr>\<rparr>) \<and>
   (0 :: real) \<le> 1 - exp (- (1 / 2)) \<and> 1 - exp (- (1 / 2)) < (1 :: real) \<and>
   sorted (map fst [(0 :: real, [1, 1 :: real]), (1 / 2, [1, 1]), (1 / 2, [1 / 10, 1 / 10])])"
proof -
  define E1 where "E1 = example_engine\<lparr>state := \<lparr>time = 1 / 2, populations = [1 / 10, 1 / 10],
        hurricanes = [\<lparr>ev_time = 1 / 2, ev_category = ''weak'', ev_damage = 9 / 10\<rparr>],
        extinctSpecies = {}, history = [(0, [1, 1]), (1 / 2, [1, 1]), (1 / 2, [1 / 10, 1 / 10])]\<rparr>\<rparr>"
  have h1: "example_engine = new_SimulationEngine ecoDynamicsTypeII example_params [1, 1] example_config \<or>
    example_engine = reset example_engine None"
    by (simp add: example_engine_def)
  have h2: "steps example_engine [(1, 1 - exp (- (1 / 2)), 3 / 4)] = Some E1"
    by (simp add: E1_def example_defs)
  have h3: "\<forall>(d, u_wait, u_cat) \<in> set [(1 :: real, 1 - exp (- (1 / 2)) :: real, 3 / 4 :: real)]. 0 \<le> u_wait \<and> u_wait < 1"
    by simp
  from history_log_ordered [OF h1 h2 h3]
  have "sorted (map fst (history (state E1)))" by blast
  then have "sorted (map fst [(0 :: real, [1, 1 :: real]), (1 / 2, [1, 1]), (1 / 2, [1 / 10, 1 / 10])])"
    by (simp add: E1_def)
  moreover have "(0 :: real) \<le> 1 - exp (- (1 / 2))" and "1 - exp (- (1 / 2)) < (1 :: real)"
    by simp_all
  ultimately show ?thesis using h1 h2 unfolding E1_def by blast
qed

text \<open>
  The claim as the specification states it asks for strictly increasing times. On the
  scenario engine a step of duration 1 whose hurricane arrives after a waiting time of 1/2
  (the draw \<open>1 - exp (- 1/2)\<close> at rate 1) and is of the weak category leaves the samples
  \<open>(0, [1, 1])\<close>, \<open>(1/2, [1, 1])\<close>, \<open>(1/2, [0.1, 0.1])\<close>: the sample after the shock has
  the time of the last integrated sample.
\<close>

theorem history_strictly_increasing_counterexample:
  "steps example_engine [(1, 1 - exp (- (1 / 2)), 3 / 4)] =
     Some (example_engine\<lparr>state := \<lparr>time = 1 / 2, populations = [1 / 10, 1 / 10],
        hurricanes = [\<lparr>ev_time = 1 / 2, ev_category = ''weak'', ev_damage = 9 / 10\<rparr>],
        extinctSpecies = {}, history = [(0, [1, 1]), (1 / 2, [1, 1]), (1 / 2, [1 / 10, 1 / 10])]\<rparr>\<rparr>) \<and>
   \<not> sorted_wrt (<) (map fst [(0 :: real, [1, 1 :: real]), (1 / 2, [1, 1]), (1 / 2, [1 / 10, 1 / 10])])"
proof (rule conjI)
  show "steps example_engine [(1, 1 - exp (- (1 / 2)), 3 / 4)] =
     Some (example_engine\<lparr>state := \<lparr>time = 1 / 2, populations = [1 / 10, 1 / 10],
        hurricanes = [\<lparr>ev_time = 1 / 2, ev_category = ''weak'', ev_damage = 9 / 10\<rparr>],
        extinctSpecies = {}, history = [(0, [1, 1]), (1 / 2, [1, 1]), (1 / 2, [1 / 10, 1 / 10])]\<rparr>\<rparr>)"
    by (simp add: example_defs)
  show "\<not> sorted_wrt (<) (map fst [(0 :: real, [1, 1 :: real]), (1 / 2, [1, 1]), (1 / 2, [1 / 10, 1 / 10])])"
  proof
    assume a: "sorted_wrt (<) (map fst [(0 :: real, [1, 1 :: real]), (1 / 2, [1, 1]), (1 / 2, [1 / 10, 1 / 10])])"
    from sorted_wrt_nth_less[OF a, of 1 2] show False by simp
  qed
qed

section \<open>The category draw\<close>

lemma cumulative_0: "cumulative (c # cs) 0 = probability c"
  by (simp add: cumulative_def)

lemma cumulative_Suc: "cumulative (c # cs) (Suc k) = probability c + cumulative cs k"
  by (simp add: cumulative_def)

lemma drawLoop_first:
  assumes "k < length cats" and "U \<le> acc + cumulative cats k"
    and "\<forall>j < k. \<not> U \<le> acc + cumulative cats j"
  shows "drawLoop cats U acc = Some (name (cats ! k), damage (cats ! k))"
  using assms
proof (induction cats arbitrary: acc k)
  case Nil
  then show ?case by simp
next
  case (Cons c cs)
  show ?case
  proof (cases k)
    case 0
    then show ?thesis using Cons.prems by (simp add: cumulative_0 Let_def)
  next
    case (Suc n)
    have not0: "\<not> U \<le> acc + probability c"
      using Cons.prems(3) Suc by (auto simp: cumulative_0 dest: spec[of _ 0])
    have n: "n < length cs" using Cons.prems(1) Suc by simp
    have le: "U \<le> (acc + probability c) + cumulative cs n"
      using Cons.prems(2) Suc by (simp add: cumulative_Suc add.assoc)
    have prev: "\<forall>j < n. \<not> U \<le> (acc + probability c) + cumulative cs j"
    proof (intro allI impI)
      fix j assume "j < n"
      then have "Suc j < k" using Suc by simp
      with Cons.prems(3) have "\<not> U \<le> acc + cumulative (c # cs) (Suc j)" by blast
      then show "\<not> U \<le> (acc + probability c) + cumulative cs j"
        by (simp add: cumulative_Suc add.assoc)
    qed
    from Cons.IH[OF n le prev] not0 show ?thesis by (simp add: Let_def Suc)
  qed
qed

lemma drawLoop_none:
  assumes "\<forall>k < length cats. \<not> U \<le> acc + cumulative cats k"
  shows "drawLoop cats U acc = None"
  using assms
proof (induction cats arbitrary: acc)
  case Nil
  then show ?case by simp
next
  case (Cons c cs)
  have not0: "\<not> U \<le> acc + probability c"
    using Cons.prems by (auto simp: cumulative_0 dest: spec[of _ 0])
  have "\<forall>k < length cs. \<not> U \<le> (acc + probability c) + cumulative cs k"
  proof (intro allI impI)
    fix k assume "k < length cs"
    then have "Suc k < length (c # cs)" by simp
    with Cons.prems have "\<not> U \<le> acc + cumulative (c # cs) (Suc k)" by blast
    then show "\<not> U \<le> (acc + probability c) + cumulative cs k"
      by (simp add: cumulative_Suc add.assoc)
  qed
  from Cons.IH[OF this] not0 show ?case by (simp add: Let_def)
qed

text \<open>
  Claim C8. For a nonempty category list and a draw \<open>U\<close>, the category draw returns the
  first category, in list order, whose cumulative probability is at least \<open>U\<close> (the
  comparison is inclusive: with probabilities 1/2, 1/2 the draw 1/2 selects the first
  category); when the cumulative probability of no category reaches \<open>U\<close> it returns the last
  category of the list.
\<close>

theorem drawHurricaneDamage_first_cumulative:
  assumes "categories \<noteq> []"
  shows "(\<forall>k < length categories.
            U \<le> cumulative categories k \<and> (\<forall>j < k. \<not> U \<le> cumulative categories j) \<longrightarrow>
            drawHurricaneDamage categories U = Inr (name (categories ! k), damage (categories ! k))) \<and>
         ((\<forall>k < length categories. \<not> U \<le> cumulative categories k) \<longrightarrow>
            drawHurricaneDamage categories U = Inr (name (last categories), damage (last categories)))"
proof (intro conjI allI impI)
  fix k
  assume k: "k < length categories"
    and a: "U \<le> cumulative categories k \<and> (\<forall>j < k. \<not> U \<le> cumulative categories j)"
  have "drawLoop categories U 0 = Some (name (categories ! k), damage (categories ! k))"
    using drawLoop_first[of k categories U 0] k a by simp
  then show "drawHurricaneDamage categories U = Inr (name (categories ! k), damage (categories ! k))"
    by (simp add: drawHurricaneDamage_def)
next
  assume "\<forall>k < length categories. \<not> U \<le> cumulative categories k"
  then have "drawLoop categories U 0 = None"
    using drawLoop_none[of categories U 0] by simp
  then show "drawHurricaneDamage categories U = Inr (name (last categories), damage (last categories))"
    using assms by (simp add: drawHurricaneDamage_def split: list.splits)
qed

theorem drawHurricaneDamage_first_cumulative_witness:
  "hurricaneCategories example_config \<noteq> [] \<and>
   (1 / 2 :: real) \<le> cumulative (hurricaneCategories example_config) 0 \<and>
   drawHurricaneDamage (hurricaneCategories example_config) (1 / 2) = Inr (''strong'', 199 / 200) \<and>
   \<not> (9 / 10 :: real) \<le> cumulative [\<lparr>name = ''a'', probability = 3 / 10, damage = 1 / 10\<rparr>,
                                      \<lparr>name = ''b'', probability = 3 / 10, damage = 1 / 2\<rparr>] 1 \<and>
   drawHurricaneDamage [\<lparr>name = ''a'', probability = 3 / 10, damage = 1 / 10\<rparr>,
                        \<lparr>name = ''b'', probability = 3 / 10, damage = 1 / 2\<rparr>] (9 / 10) = Inr (''b'', 1 / 2)"
proof -
  have ne: "hurricaneCategories example_config \<noteq> []" by (simp add: example_config_def)
  have c0: "cumulative (hurricaneCategories example_config) 0 = 1 / 2"
    by (simp add: example_config_def cumulative_def)
  have len: "length (hurricaneCategories example_config) = 2" by (simp add: example_config_def)
  have "drawHurricaneDamage (hurricaneCategories example_config) (1 / 2)
      = Inr (name (hurricaneCategories example_config ! 0), damage (hurricaneCategories example_config ! 0))"
    using drawHurricaneDamage_first_cumulative [OF ne, of "1 / 2"] c0 len by simp
  then have a: "drawHurricaneDamage (hurricaneCategories example_config) (1 / 2) = Inr (''strong'', 199 / 200)"
    by (simp add: example_config_def)
  define short where "short = [\<lparr>name = ''a'', probability = 3 / 10, damage = 1 / 10\<rparr>,
                                \<lparr>name = ''b'', probability = 3 / 10, damage = 1 / 2\<rparr>]"
  have ne2: "short \<noteq> []" by (simp add: short_def)
  have s0: "cumulative short 0 = 3 / 10" and s1: "cumulative short 1 = 6 / 10"
    by (simp_all add: short_def cumulative_def)
  have all: "\<forall>k < length short. \<not> (9 / 10 :: real) \<le> cumulative short k"
    using s0 s1 by (auto simp: short_def less_Suc_eq)
  have "drawHurricaneDamage short (9 / 10) = Inr (name (last short), damage (last short))"
    using drawHurricaneDamage_first_cumulative [OF ne2, of "9 / 10"] all by blast
  then have b: "drawHurricaneDamage short (9 / 10) = Inr (''b'', 1 / 2)"
    by (simp add: short_def)
  have nb: "\<not> (9 / 10 :: real) \<le> cumulative short 1" using s1 by simp
  show ?thesis using ne a b c0 nb unfolding short_def by simp
qed

section \<open>updateConfig\<close>





section \<open>The sign partition of the interaction matrices\<close>

lemma addTo_square:
  assumes "length Y = n \<and> (\<forall>k < n. length (Y ! k) = n)"
  shows "length (addTo Y i j v) = n \<and> (\<forall>k < n. length (addTo Y i j v ! k) = n)"
  using assms by (cases "i < length Y") (auto simp: addTo_def nth_list_update)

lemma setAt_square:
  assumes "length Y = n \<and> (\<forall>k < n. length (Y ! k) = n)"
  shows "length (setAt Y i j v) = n \<and> (\<forall>k < n. length (setAt Y i j v ! k) = n)"
  using assms by (cases "i < length Y") (auto simp: setAt_def nth_list_update)

lemma foldl_square:
  assumes step: "\<And>Y x. length Y = n \<and> (\<forall>k < n. length (Y ! k) = n) \<Longrightarrow>
                     length (g Y x) = n \<and> (\<forall>k < n. length (g Y x ! k) = n)"
    and "length Y = n \<and> (\<forall>k < n. length (Y ! k) = n)"
  shows "length (foldl g Y xs) = n \<and> (\<forall>k < n. length (foldl g Y xs ! k) = n)"
  using assms(2)
proof (induction xs arbitrary: Y)
  case Nil
  then show ?case by simp
next
  case (Cons x xs)
  from Cons.IH[OF step[OF Cons.prems]] show ?case by simp
qed

lemma competition_square:
  assumes "length Y = n \<and> (\<forall>k < n. length (Y ! k) = n)"
  shows "length (competition Y off m in_B in_S c) = n \<and>
         (\<forall>k < n. length (competition Y off m in_B in_S c ! k) = n)"
  unfolding competition_def
proof (rule foldl_square[OF _ assms])
  fix Y :: "real list list" and x :: "nat \<times> nat"
  assume sq: "length Y = n \<and> (\<forall>k < n. length (Y ! k) = n)"
  obtain j i where x: "x = (j, i)" by (cases x)
  show "length ((case x of (j, i) \<Rightarrow>
              if i \<noteq> j then
                (let Y1 = (if in_B ! i \<and> in_B ! j
                           then addTo Y (off + i) (off + j) (c / comp_denom in_B) else Y)
                 in if in_S ! i \<and> in_S ! j
                    then addTo Y1 (off + i) (off + j) (c / comp_denom in_S) else Y1)
              else Y)) = n \<and>
        (\<forall>k < n. length ((case x of (j, i) \<Rightarrow>
              if i \<noteq> j then
                (let Y1 = (if in_B ! i \<and> in_B ! j
                           then addTo Y (off + i) (off + j) (c / comp_denom in_B) else Y)
                 in if in_S ! i \<and> in_S ! j
                    then addTo Y1 (off + i) (off + j) (c / comp_denom in_S) else Y1)
              else Y) ! k) = n)"
    using sq addTo_square[OF sq] addTo_square[OF addTo_square[OF sq]]
    by (simp add: x Let_def)
qed

lemma mutualism_square:
  assumes "length Y = n \<and> (\<forall>k < n. length (Y ! k) = n)"
  shows "length (mutualism Y padded strength Np Na) = n \<and>
         (\<forall>k < n. length (mutualism Y padded strength Np Na ! k) = n)"
proof (cases padded)
  case None
  then show ?thesis using assms by (simp add: mutualism_def)
next
  case (Some P)
  show ?thesis
    unfolding mutualism_def Some option.case Let_def
  proof (rule foldl_square[OF _ assms])
    fix Y :: "real list list" and x :: "nat \<times> nat"
    assume sq: "length Y = n \<and> (\<forall>k < n. length (Y ! k) = n)"
    obtain i j where x: "x = (i, j)" by (cases x)
    let ?rs = "map (\<lambda>row. foldl (\<lambda>sum val. sum + val) 0 row) P"
    let ?cs = "map (\<lambda>j. foldl (\<lambda>sum i. sum + P ! i ! j) 0 [0..<Np]) [0..<Na]"
    let ?g = "(case x of (i, j) \<Rightarrow>
                if P ! i ! j > 0 then
                  (if ?cs ! j > 0
                      then addTo (if ?rs ! i > 0
                             then addTo Y i (Np + j) (strength * P ! i ! j / sqrt (?rs ! i)) else Y)
                             (Np + j) i (strength * P ! i ! j / sqrt (?cs ! j))
                      else (if ?rs ! i > 0
                             then addTo Y i (Np + j) (strength * P ! i ! j / sqrt (?rs ! i)) else Y))
                else Y)"
    show "length ?g = n \<and> (\<forall>k < n. length (?g ! k) = n)"
      using sq addTo_square[OF sq] addTo_square[OF addTo_square[OF sq]]
      by (simp add: x)
  qed
qed

lemma split_signs:
  assumes "length Y = n \<and> (\<forall>k < n. length (Y ! k) = n)"
    and "Ym = map (map (max 0)) Y" and "Yc = map (map (min 0)) Y"
  shows "length Ym = n \<and> length Yc = n \<and>
         (\<forall>i < n. length (Ym ! i) = n \<and> length (Yc ! i) = n \<and>
            (\<forall>j < n. (0::real) \<le> Ym ! i ! j \<and> Yc ! i ! j \<le> 0 \<and>
               (Ym ! i ! j = 0 \<or> Yc ! i ! j = 0)))"
  using assms(1) unfolding assms(2,3) by (auto simp: max_def min_def)

text \<open>
  Claim C5. For the matrices the bipartite builder returns (on rectangular input matrices)
  and for those of the synthetic ring generator, both are square of the size of the species
  space, and for every pair of indices \<open>(i, j)\<close>: \<open>Y_mut[i][j] \<ge> 0\<close>, \<open>Y_comp[i][j] \<le> 0\<close>,
  and at most one of the two is nonzero.
\<close>

theorem sign_partition:
  assumes wf_B: "case net_B network of None \<Rightarrow> True | Some M \<Rightarrow> rectangular M"
    and wf_S: "case net_S network of None \<Rightarrow> True | Some M \<Rightarrow> rectangular M"
  shows "(\<forall>Ym Yc n. buildInteractionMatrix network params = Inr (Ym, Yc, n) \<longrightarrow>
            length Ym = n \<and> length Yc = n \<and>
            (\<forall>i < n. length (Ym ! i) = n \<and> length (Yc ! i) = n \<and>
               (\<forall>j < n. 0 \<le> Ym ! i ! j \<and> Yc ! i ! j \<le> 0 \<and> (Ym ! i ! j = 0 \<or> Yc ! i ! j = 0)))) \<and>
         (\<forall>Ym Yc. generateInteractionMatrices cfg = (Ym, Yc) \<longrightarrow>
            length Ym = nSpecies cfg \<and> length Yc = nSpecies cfg \<and>
            (\<forall>i < nSpecies cfg. length (Ym ! i) = nSpecies cfg \<and> length (Yc ! i) = nSpecies cfg \<and>
               (\<forall>j < nSpecies cfg. 0 \<le> Ym ! i ! j \<and> Yc ! i ! j \<le> 0 \<and>
                  (Ym ! i ! j = 0 \<or> Yc ! i ! j = 0))))"
proof (rule conjI; intro allI impI)
  fix Ym Yc n
  assume b: "buildInteractionMatrix network params = Inr (Ym, Yc, n)"
  define Np where "Np = max (case net_B network of None \<Rightarrow> 0 | Some M \<Rightarrow> length M)
                      (case net_S network of None \<Rightarrow> 0 | Some M \<Rightarrow> length M)"
  define Na where "Na = max (case net_B network of None \<Rightarrow> 0 | Some M \<Rightarrow> length (M ! 0))
                      (case net_S network of None \<Rightarrow> 0 | Some M \<Rightarrow> length (M ! 0))"
  define fB where "fB = activeFlags (padMatrix (net_B network) Np Na) Np Na"
  define fS where "fS = activeFlags (padMatrix (net_S network) Np Na) Np Na"
  define Y where "Y = mutualism (mutualism
       (competition (competition (replicate (Np + Na) (replicate (Np + Na) 0)) 0 Np (fst fB) (fst fS) (par_c params))
          Np Na (snd fB) (snd fS) (par_c params))
       (padMatrix (net_B network) Np Na) (par_m params) Np Na)
       (padMatrix (net_S network) Np Na) (par_d params) Np Na"
  have unf: "buildInteractionMatrix network params =
     (if net_B network = None \<and> net_S network = None then Inl NoMatrixError
      else if net_B network = Some [] \<or> net_S network = Some [] then Inl TypeError
      else Inr (map (map (max 0)) Y, map (map (min 0)) Y, Np + Na))"
    unfolding buildInteractionMatrix_def Let_def case_prod_beta Y_def fB_def fS_def Np_def Na_def
    by (rule refl)
  have res: "Ym = map (map (max 0)) Y \<and> Yc = map (map (min 0)) Y \<and> n = Np + Na"
    using b unfolding unf by (simp split: if_splits)
  have sq0: "length (replicate (Np + Na) (replicate (Np + Na) (0::real))) = Np + Na \<and>
      (\<forall>k < Np + Na. length (replicate (Np + Na) (replicate (Np + Na) (0::real)) ! k) = Np + Na)"
    by simp
  have sq: "length Y = Np + Na \<and> (\<forall>k < Np + Na. length (Y ! k) = Np + Na)"
    unfolding Y_def
    by (intro mutualism_square competition_square sq0)
  from res have ym: "Ym = map (map (max 0)) Y" and yc: "Yc = map (map (min 0)) Y"
    and n: "n = Np + Na" by simp_all
  show "length Ym = n \<and> length Yc = n \<and>
            (\<forall>i < n. length (Ym ! i) = n \<and> length (Yc ! i) = n \<and>
               (\<forall>j < n. 0 \<le> Ym ! i ! j \<and> Yc ! i ! j \<le> 0 \<and> (Ym ! i ! j = 0 \<or> Yc ! i ! j = 0)))"
    unfolding n by (rule split_signs[OF sq ym yc])
next
  fix Ym Yc
  assume g: "generateInteractionMatrices cfg = (Ym, Yc)"
  define n where "n = nSpecies cfg"
  define Y where "Y = foldl (\<lambda>Y (i, j).
                if i \<noteq> j then
                  (if (i + 1) mod n = j \<or> (j + 1) mod n = i
                   then setAt Y i j (mutualisticStrength cfg)
                   else setAt Y i j (competitionStrength cfg))
                else Y)
              (replicate n (replicate n 0)) (List.product [0..<n] [0..<n])"
  have unf: "generateInteractionMatrices cfg = (map (map (max 0)) Y, map (map (min 0)) Y)"
    unfolding generateInteractionMatrices_def Let_def Y_def n_def by (rule refl)
  have res: "Ym = map (map (max 0)) Y \<and> Yc = map (map (min 0)) Y"
    using g unfolding unf by simp
  have sq0: "length (replicate n (replicate n (0::real))) = n \<and>
      (\<forall>k < n. length (replicate n (replicate n (0::real)) ! k) = n)"
    by simp
  have sq: "length Y = n \<and> (\<forall>k < n. length (Y ! k) = n)"
    unfolding Y_def
  proof (rule foldl_square[OF _ sq0])
    fix Y :: "real list list" and x :: "nat \<times> nat"
    assume a: "length Y = n \<and> (\<forall>k < n. length (Y ! k) = n)"
    obtain i j where x: "x = (i, j)" by (cases x)
    show "length ((case x of (i, j) \<Rightarrow>
                if i \<noteq> j then
                  (if (i + 1) mod n = j \<or> (j + 1) mod n = i
                   then setAt Y i j (mutualisticStrength cfg)
                   else setAt Y i j (competitionStrength cfg))
                else Y)) = n \<and>
          (\<forall>k < n. length ((case x of (i, j) \<Rightarrow>
                if i \<noteq> j then
                  (if (i + 1) mod n = j \<or> (j + 1) mod n = i
                   then setAt Y i j (mutualisticStrength cfg)
                   else setAt Y i j (competitionStrength cfg))
                else Y) ! k) = n)"
      using a setAt_square[OF a] by (simp add: x)
  qed
  from res have ym: "Ym = map (map (max 0)) Y" and yc: "Yc = map (map (min 0)) Y" by simp_all
  show "length Ym = nSpecies cfg \<and> length Yc = nSpecies cfg \<and>
            (\<forall>i < nSpecies cfg. length (Ym ! i) = nSpecies cfg \<and> length (Yc ! i) = nSpecies cfg \<and>
               (\<forall>j < nSpecies cfg. 0 \<le> Ym ! i ! j \<and> Yc ! i ! j \<le> 0 \<and>
                  (Ym ! i ! j = 0 \<or> Yc ! i ! j = 0)))"
    unfolding n_def[symmetric] by (rule split_signs[OF sq ym yc])
qed

lemmas builder_defs = buildInteractionMatrix_def padMatrix_def activeFlags_def competition_def
  comp_denom_def mutualism_def addTo_def setAt_def generateInteractionMatrices_def Let_def rectangular_def

lemma upt2: "[0..<2] = [0, 1]" by (simp add: upt_rec)
lemma upt4: "[0..<4] = [0, 1, 2, 3]" by (simp add: upt_rec)
lemma rep2: "replicate 2 x = [x, x]" by (simp add: numeral_Bit0)
lemma rep4: "replicate 4 x = [x, x, x, x]" by (simp add: numeral_Bit0)

theorem sign_partition_witness:
  "(case net_B \<lparr>net_B = Some [[1, 0], [0, 1]], net_S = None\<rparr> of None \<Rightarrow> True | Some M \<Rightarrow> rectangular M) \<and>
   (case net_S \<lparr>net_B = Some [[1, 0], [0, 1]], net_S = None\<rparr> of None \<Rightarrow> True | Some M \<Rightarrow> rectangular M) \<and>
   buildInteractionMatrix \<lparr>net_B = Some [[1, 0], [0, 1]], net_S = None\<rparr>
       \<lparr>par_m = 1, par_d = 1 / 2, par_c = - (1 / 10)\<rparr> =
     Inr ([[0, 0, 1, 0], [0, 0, 0, 1], [1, 0, 0, 0], [0, 1, 0, 0]],
          [[0, - (1 / 10), 0, 0], [- (1 / 10), 0, 0, 0], [0, 0, 0, - (1 / 10)], [0, 0, - (1 / 10), 0]], 4) \<and>
   generateInteractionMatrices \<lparr>nSpecies = 4, mutualisticStrength = 1 / 2, dispersalStrength = 1 / 2,
       competitionStrength = - (1 / 10), halfSaturation = 1 / 2, customNetwork = None\<rparr> =
     ([[0, 1 / 2, 0, 1 / 2], [1 / 2, 0, 1 / 2, 0], [0, 1 / 2, 0, 1 / 2], [1 / 2, 0, 1 / 2, 0]],
      [[0, 0, - (1 / 10), 0], [0, 0, 0, - (1 / 10)], [- (1 / 10), 0, 0, 0], [0, - (1 / 10), 0, 0]]) \<and>
   length [[0, 0, 1, 0], [0, 0, 0, 1], [1, 0, 0, 0], [0, 1, 0, 0 :: real]] = 4 \<and>
   length [[0, 1 / 2, 0, 1 / 2], [1 / 2, 0, 1 / 2, 0], [0, 1 / 2, 0, 1 / 2], [1 / 2, 0, 1 / 2, 0 :: real]] = 4"
proof -
  define net where "net = \<lparr>net_B = Some [[1, 0], [0, 1]], net_S = None\<rparr>"
  define par where "par = \<lparr>par_m = 1, par_d = 1 / 2, par_c = - (1 / 10)\<rparr>"
  define cfg where "cfg = \<lparr>nSpecies = 4, mutualisticStrength = 1 / 2, dispersalStrength = 1 / 2,
       competitionStrength = - (1 / 10), halfSaturation = 1 / 2, customNetwork = None\<rparr>"
  have h1: "case net_B net of None \<Rightarrow> True | Some M \<Rightarrow> rectangular M"
    by (simp add: net_def rectangular_def)
  have h2: "case net_S net of None \<Rightarrow> True | Some M \<Rightarrow> rectangular M"
    by (simp add: net_def)
  have b: "buildInteractionMatrix net par =
     Inr ([[0, 0, 1, 0], [0, 0, 0, 1], [1, 0, 0, 0], [0, 1, 0, 0]],
          [[0, - (1 / 10), 0, 0], [- (1 / 10), 0, 0, 0], [0, 0, 0, - (1 / 10)], [0, 0, - (1 / 10), 0]], 4)"
    by (simp add: net_def par_def buildInteractionMatrix_def padMatrix_def activeFlags_def competition_def
      comp_denom_def mutualism_def addTo_def Let_def upt2 rep4 rep2)
  have g: "generateInteractionMatrices cfg =
     ([[0, 1 / 2, 0, 1 / 2], [1 / 2, 0, 1 / 2, 0], [0, 1 / 2, 0, 1 / 2], [1 / 2, 0, 1 / 2, 0]],
      [[0, 0, - (1 / 10), 0], [0, 0, 0, - (1 / 10)], [- (1 / 10), 0, 0, 0], [0, - (1 / 10), 0, 0]])"
    by (simp add: cfg_def generateInteractionMatrices_def setAt_def Let_def upt4 rep4)
  have n: "nSpecies cfg = 4" by (simp add: cfg_def)
  from sign_partition [OF h1 h2, of par cfg] b g n
  have "length [[0, 0, 1, 0], [0, 0, 0, 1], [1, 0, 0, 0], [0, 1, 0, 0 :: real]] = 4 \<and>
        length [[0, 1 / 2, 0, 1 / 2], [1 / 2, 0, 1 / 2, 0], [0, 1 / 2, 0, 1 / 2], [1 / 2, 0, 1 / 2, 0 :: real]] = 4"
    by simp
  with h1 h2 b g show ?thesis unfolding net_def par_def cfg_def by blast
qed

section \<open>The accessors\<close>

text \<open>
  Claim C9. Every accessor returns an independent copy: no write of a caller to a returned
  value changes the state of the engine. The code does not do this for the hurricane
  records. On the store of the scenario engine after a hurricane, \<open>getHurricanes\<close> returns
  a new array (at 12) that holds the reference (1) of the engine's own record, and so does
  the \<^verbatim>\<open>hurricanes\<close> array of the object \<open>getState\<close> returns (at 13): the write
  \<^verbatim>\<open>damage = 0\<close> through either changes the hurricane log the engine holds. The
  populations and the samples of the history are copied (by \<open>getPopulations\<close> at 12, by
  \<open>getState\<close> at 12 and at 15): a write to the copies leaves the state of the engine as
  it was. \<open>getTime\<close> returns a number.
\<close>

theorem accessors_share_hurricane_records:
  "steps example_engine [(1, 1 - exp (- (1 / 2)), 3 / 4)] = Some (example_engine\<lparr>state := shocked_state\<rparr>) \<and>
   fst (store_state [] shocked_state) = 11 \<and>
   read_state (snd (store_state [] shocked_state)) 11 = Some shocked_state \<and>
   getTime (snd (store_state [] shocked_state)) 11 = Some (1 / 2) \<and>
   getPopulations (snd (store_state [] shocked_state)) 11
     = Some (12, snd (store_state [] shocked_state) @ [NumArray [1 / 10, 1 / 10]]) \<and>
   read_state (set_element (snd (store_state [] shocked_state) @ [NumArray [1 / 10, 1 / 10]]) 12 0 7) 11
     = Some shocked_state \<and>
   getHurricanes (snd (store_state [] shocked_state)) 11
     = Some (12, snd (store_state [] shocked_state) @ [ObjArray [1]]) \<and>
   lookup (snd (store_state [] shocked_state)) 2 = Some (ObjArray [1]) \<and>
   read_state (set_damage (snd (store_state [] shocked_state) @ [ObjArray [1]]) 1 0) 11
     = Some (shocked_state\<lparr>hurricanes := [\<lparr>ev_time = 1 / 2, ev_category = ''weak'', ev_damage = 0\<rparr>]\<rparr>) \<and>
   read_state (set_damage (snd (store_state [] shocked_state) @ [ObjArray [1]]) 1 0) 11
     \<noteq> Some shocked_state \<and>
   map_option fst (getState (snd (store_state [] shocked_state)) 11) = Some 22 \<and>
   lookup (snd (the (getState (snd (store_state [] shocked_state)) 11))) 22
     = Some (StateObj (1 / 2) 12 13 14 21) \<and>
   lookup (snd (the (getState (snd (store_state [] shocked_state)) 11))) 13 = Some (ObjArray [1]) \<and>
   read_state (set_damage (snd (the (getState (snd (store_state [] shocked_state)) 11))) 1 0) 11
     \<noteq> Some shocked_state \<and>
   lookup (snd (the (getState (snd (store_state [] shocked_state)) 11))) 21 = Some (ObjArray [16, 18, 20]) \<and>
   lookup (snd (the (getState (snd (store_state [] shocked_state)) 11))) 16 = Some (SampleObj 0 15) \<and>
   read_state (set_element (snd (the (getState (snd (store_state [] shocked_state)) 11))) 15 0 7) 11
     = Some shocked_state \<and>
   read_state (set_element (snd (the (getState (snd (store_state [] shocked_state)) 11))) 12 0 7) 11
     = Some shocked_state"
proof -
  have run: "steps example_engine [(1, 1 - exp (- (1 / 2)), 3 / 4)] = Some (example_engine\<lparr>state := shocked_state\<rparr>)"
    by (simp add: example_defs shocked_state_def)
  have lay: "store_state [] shocked_state = (11,
    [NumArray [1 / 10, 1 / 10], EventObj (1 / 2) ''weak'' (9 / 10), ObjArray [1], SetObj {},
     NumArray [1, 1], SampleObj 0 4, NumArray [1, 1], SampleObj (1 / 2) 6,
     NumArray [1 / 10, 1 / 10], SampleObj (1 / 2) 8, ObjArray [5, 7, 9], StateObj (1 / 2) 0 2 3 10])"
    by (simp add: store_defs)
  have gs: "getState (snd (store_state [] shocked_state)) 11 = Some (22,
    [NumArray [1 / 10, 1 / 10], EventObj (1 / 2) ''weak'' (9 / 10), ObjArray [1], SetObj {},
     NumArray [1, 1], SampleObj 0 4, NumArray [1, 1], SampleObj (1 / 2) 6,
     NumArray [1 / 10, 1 / 10], SampleObj (1 / 2) 8, ObjArray [5, 7, 9], StateObj (1 / 2) 0 2 3 10,
     NumArray [1 / 10, 1 / 10], ObjArray [1], SetObj {},
     NumArray [1, 1], SampleObj 0 15, NumArray [1, 1], SampleObj (1 / 2) 17,
     NumArray [1 / 10, 1 / 10], SampleObj (1 / 2) 19, ObjArray [16, 18, 20], StateObj (1 / 2) 12 13 14 21])"
    unfolding lay by (simp add: store_defs)
  show ?thesis
    unfolding gs unfolding lay
    apply (intro conjI)
                     apply (rule run)
                    apply (simp_all add: store_defs)
    done
qed

end
